theory Spec2Isabelle
  imports Complex_Main
begin

section \<open>Data model of the mixer (src/mixer.py)\<close>

text \<open>
  The module is Jython code over three Java deques (\<open>ConcurrentLinkedDeque\<close>) of channel
  ids and a Python dictionary of channel objects. The deques are lists here, head first:
  \<open>pop()\<close> takes the head (and raises \<open>NoSuchElementException\<close> on an empty deque),
  \<open>add(x)\<close> appends at the tail, \<open>remove(x)\<close> deletes the first occurrence of \<open>x\<close>
  and does nothing when there is none, \<open>clear()\<close> empties the deque. Python's unbounded
  integers are \<open>int\<close>. Volumes are Python floats; the code only compares them with
  \<open>0.0\<close> and \<open>1.0\<close> and stores them (both exact on floats), apart from the two
  products returned by \<open>Channel._get\<close>, which no statement below depends on. They are
  \<open>real\<close> here.

  Exceptions that leave a method are values: an operation returns a pair of its outcome
  (\<open>Inl\<close> the exception, \<open>Inr\<close> the returned value) and the state it leaves behind,
  since the mutations made before a raise stay.
\<close>

datatype error = AttributeError | KeyError

text \<open>
  A decode cursor (\<open>AudioInputStream\<close>) is the list of outcomes its remaining
  \<open>read\<close> calls will have: a number of bytes, or an \<open>IOException\<close>. Once the list
  is used up the stream is at its end and \<open>read\<close> returns \<open>-1\<close>.
\<close>

datatype read_outcome = Read int | IOException

record sound =
  s_id :: int
  s_sound_object :: "read_outcome list"
  s_volume :: real

record channel =
  c_id :: int
  c_sound :: "sound option"
  c_stream :: "read_outcome list option"
  c_data_len :: int
  c_active :: bool
  c_pause :: bool
  c_loops :: int
  c_volume :: real
  c_lvolume :: real
  c_rvolume :: real

record audio_format =
  af_signed :: bool
  af_sample_rate :: int
  af_sample_size :: int
  af_channels :: int
  af_frame_size :: int
  af_big_endian :: bool

text \<open>
  What the platform backend answers when \<open>Mixer.init\<close> constructs it: the class is
  missing (\<open>AudioMixer\<close> is \<open>None\<close>, the call raises \<open>TypeError\<close>), the object
  reports \<open>isInitialized() = false\<close>, or it is open with the buffer size it chose.
\<close>

datatype backend = NoMixerClass | NotInitialized | Opened int

record mixer =
  audio_mixer :: "backend option"
  music :: bool
  channel_max :: int
  channels :: "int \<rightharpoonup> channel"
  channel_available :: "int list"
  channel_active :: "int list"
  channel_reserved :: "int list"
  channel_reserved_num :: int
  active_flag :: bool
  initialized :: bool
  the_audio_format :: "audio_format option"
  bufferSize :: "int option"

text \<open>\<open>Mixer.__init__\<close>. The attributes \<open>_audio_format\<close> and \<open>_bufferSize\<close> do not
  exist until \<open>init\<close> assigns them: they are \<open>None\<close> here.\<close>

definition Mixer_new :: mixer where
  "Mixer_new =
     \<lparr>audio_mixer = None, music = False, channel_max = 8, channels = Map.empty,
      channel_available = [0..7], channel_active = [], channel_reserved = [],
      channel_reserved_num = 0, active_flag = False, initialized = False,
      the_audio_format = None, bufferSize = None\<rparr>"

section \<open>Pool bookkeeping\<close>

definition activate_channel :: "int \<Rightarrow> mixer \<Rightarrow> mixer" where
  "activate_channel i s =
     (let s1 = (if i > channel_reserved_num s - 1
                then s\<lparr>channel_available := remove1 i (channel_available s)\<rparr>
                else s\<lparr>channel_reserved := remove1 i (channel_reserved s)\<rparr>)
      in s1\<lparr>channel_active := channel_active s1 @ [i], active_flag := True\<rparr>)"

definition deactivate_channel :: "int \<Rightarrow> mixer \<Rightarrow> mixer" where
  "deactivate_channel i s =
     (let s1 = s\<lparr>channel_active := remove1 i (channel_active s)\<rparr>
      in if channel_active s1 = [] then s1\<lparr>active_flag := False\<rparr> else s1)"

definition restore_channel :: "int \<Rightarrow> mixer \<Rightarrow> mixer" where
  "restore_channel i s =
     (if i > channel_reserved_num s - 1
      then s\<lparr>channel_available := channel_available s @ [i]\<rparr>
      else if i > - 1
      then s\<lparr>channel_reserved := channel_reserved s @ [i]\<rparr>
      else s)"

definition register_channel :: "channel \<Rightarrow> mixer \<Rightarrow> (error + unit) \<times> mixer" where
  "register_channel c s =
     (if c_id c < channel_max s
      then (Inr (), s\<lparr>channels := (channels s)(c_id c \<mapsto> c)\<rparr>)
      else (Inl AttributeError, s))"

text \<open>\<open>Channel.__init__\<close>: the fields of a new channel object. Reading
  \<open>self._mixer._bufferSize\<close> raises \<open>AttributeError\<close> while no \<open>init\<close> has
  assigned it; registration is the last step that can fail.\<close>

definition fresh_channel :: "int \<Rightarrow> channel" where
  "fresh_channel i =
     \<lparr>c_id = i, c_sound = None, c_stream = None, c_data_len = 0, c_active = False,
      c_pause = False, c_loops = 0, c_volume = 1, c_lvolume = 1, c_rvolume = 1\<rparr>"

definition Channel_new :: "int \<Rightarrow> mixer \<Rightarrow> (error + channel) \<times> mixer" where
  "Channel_new i s =
     (case bufferSize s of
        None \<Rightarrow> (Inl AttributeError, s)
      | Some b \<Rightarrow>
          (case register_channel (fresh_channel i) s of
             (Inl e, s1) \<Rightarrow> (Inl e, s1)
           | (Inr u, s1) \<Rightarrow> (Inr (fresh_channel i), s1)))"

definition get_channel :: "int \<Rightarrow> mixer \<Rightarrow> (error + channel) \<times> mixer" where
  "get_channel i s =
     (case channels s i of
        Some c \<Rightarrow> (Inr c, s)
      | None \<Rightarrow> Channel_new i s)"

text \<open>
  The registry holds the channel objects themselves. A method runs on the object
  (\<open>self\<close>, a \<open>channel\<close> value) and on the mixer; \<open>store\<close> puts the fields the method
  left in \<open>self\<close> back under the object's id, which is where the registry keeps that
  object.
\<close>

definition store :: "channel \<Rightarrow> mixer \<Rightarrow> mixer" where
  "store c s = s\<lparr>channels := (channels s)(c_id c \<mapsto> c)\<rparr>"

section \<open>Channel\<close>

text \<open>\<open>Channel._set_sound\<close>; opening the sound's stream is taken to succeed.\<close>

definition Channel_set_sound :: "channel \<Rightarrow> sound \<Rightarrow> channel" where
  "Channel_set_sound c sd = c\<lparr>c_sound := Some sd, c_stream := Some (s_sound_object sd)\<rparr>"

definition Channel_stop :: "channel \<Rightarrow> mixer \<Rightarrow> channel \<times> mixer" where
  "Channel_stop c s =
     (if \<not> c_active c then (c, s)
      else
        (let c1 = c\<lparr>c_active := False\<rparr>;
             s1 = deactivate_channel (c_id c) s;
             c2 = c1\<lparr>c_stream := None\<rparr>;
             c3 = c2\<lparr>c_sound := None, c_pause := False, c_loops := 0,
                     c_volume := 1, c_lvolume := 1, c_rvolume := 1\<rparr>;
             s2 = restore_channel (c_id c) s1
         in (c3, s2)))"

definition Channel_pause :: "channel \<Rightarrow> channel" where
  "Channel_pause c = (if c_active c then c\<lparr>c_active := False, c_pause := True\<rparr> else c)"

definition Channel_unpause :: "channel \<Rightarrow> channel" where
  "Channel_unpause c = (if c_pause c then c\<lparr>c_active := True, c_pause := False\<rparr> else c)"

text \<open>Python's truth value of the optional second volume: \<open>None\<close> and \<open>0.0\<close> are
  both false.\<close>

definition truthy :: "real option \<Rightarrow> bool" where
  "truthy v = (case v of None \<Rightarrow> False | Some x \<Rightarrow> x \<noteq> 0)"

definition Channel_set_volume :: "channel \<Rightarrow> real \<Rightarrow> real option \<Rightarrow> channel" where
  "Channel_set_volume c volume volume2 =
     (let volume' = (if volume < 0 then 0 else if volume > 1 then 1 else volume);
          c1 = c\<lparr>c_lvolume := volume'\<rparr>
      in if truthy volume2
         then (let v2 = the volume2;
                   v2' = (if v2 < 0 then 0 else if v2 > 1 then 1 else v2)
               in c1\<lparr>c_rvolume := v2'\<rparr>)
         else c1\<lparr>c_rvolume := c_lvolume c1, c_volume := volume'\<rparr>)"

definition Channel_get_volume :: "channel \<Rightarrow> real" where
  "Channel_get_volume c = c_volume c"

definition Channel_play :: "channel \<Rightarrow> sound \<Rightarrow> int \<Rightarrow> mixer \<Rightarrow> channel \<times> mixer" where
  "Channel_play c sd loops s =
     (let (c1, s1) =
            (if c_sound c \<noteq> None
             then (let lv = c_lvolume c; rv = c_rvolume c;
                       (c', s') = Channel_stop c s
                   in (Channel_set_volume c' lv (Some rv), s'))
             else (c, s));
          c2 = Channel_set_sound c1 sd;
          c3 = c2\<lparr>c_loops := loops, c_active := True\<rparr>
      in (c3, activate_channel (c_id c3) s1))"

text \<open>\<open>Channel._play\<close>, the variant \<open>Sound.play\<close> uses.\<close>

definition Channel_play' :: "channel \<Rightarrow> sound \<Rightarrow> int \<Rightarrow> channel" where
  "Channel_play' c sd loops = (Channel_set_sound c sd)\<lparr>c_loops := loops, c_active := True\<rparr>"

definition stream_read :: "read_outcome list \<Rightarrow> int \<times> read_outcome list" where
  "stream_read st =
     (case st of
        [] \<Rightarrow> (- 1, [])
      | Read n # rest \<Rightarrow> (n, rest)
      | IOException # rest \<Rightarrow> (0, rest))"

text \<open>
  \<open>Channel._get\<close> returns \<open>(data, data_len, lvol, rvol)\<close>; the bytes of \<open>data\<close> are
  not modelled, so the result is \<open>(data_len, lvol, rvol)\<close>. A method call on an attribute
  that is \<open>None\<close> (\<open>self._stream.read\<close>, \<open>self._sound._volume\<close>,
  \<open>sound._sound_object\<close>) raises \<open>AttributeError\<close>.
\<close>

definition Channel_get ::
  "channel \<Rightarrow> mixer \<Rightarrow> (error + int \<times> real \<times> real) \<times> channel \<times> mixer" where
  "Channel_get c s =
     (case c_stream c of
        None \<Rightarrow> (Inl AttributeError, c, s)
      | Some st \<Rightarrow>
          (let (n, st') = stream_read st;
               c1 = c\<lparr>c_data_len := n, c_stream := Some st'\<rparr>
           in if n > 0
              then (case c_sound c1 of
                      None \<Rightarrow> (Inl AttributeError, c1, s)
                    | Some sd \<Rightarrow>
                        (Inr (n, c_lvolume c1 * s_volume sd, c_rvolume c1 * s_volume sd), c1, s))
              else if c_loops c1 = 0
              then (let (c2, s2) = Channel_stop c1 s
                    in (Inr (c_data_len c2, 1, 1), c2, s2))
              else (case c_sound c1 of
                      None \<Rightarrow> (Inl AttributeError, c1, s)
                    | Some sd \<Rightarrow>
                        (let c2 = Channel_set_sound c1 sd;
                             c3 = c2\<lparr>c_loops := c_loops c2 - 1\<rparr>
                         in (Inr (c_data_len c3, 1, 1), c3, s)))))"

section \<open>Mixer\<close>

text \<open>
  \<open>Mixer.init\<close>. The argument \<open>bits\<close> is the source's \<open>size\<close>; \<open>size_is_float\<close> says that it was passed as a
  float (the code's way to ask for big-endian data); \<open>b\<close> is the backend's answer. Every
  path of the method ends in \<open>return None\<close>; the result type is the format the method
  could have returned. Starting the mixing thread is outside the model.
\<close>

definition Mixer_init ::
  "int \<Rightarrow> int \<Rightarrow> bool \<Rightarrow> int \<Rightarrow> int \<Rightarrow> backend \<Rightarrow> mixer
     \<Rightarrow> (error + audio_format option) \<times> mixer" where
  "Mixer_init frequency bits size_is_float chans buffer b s =
     (if \<not> initialized s
      then
        (let chans' = (if chans \<le> 1 then 1 else 2);
             framesize = (if size_is_float
                          then \<lfloor>(real_of_int \<bar>bits\<bar> / 8) * real_of_int chans'\<rfloor>
                          else (\<bar>bits\<bar> div 8) * chans');
             fmt = \<lparr>af_signed = (bits < 0), af_sample_rate = frequency,
                    af_sample_size = \<bar>bits\<bar>, af_channels = chans',
                    af_frame_size = framesize, af_big_endian = size_is_float\<rparr>;
             s1 = s\<lparr>the_audio_format := Some fmt, bufferSize := Some buffer\<rparr>
         in case b of
              NoMixerClass \<Rightarrow> (Inr None, s1\<lparr>audio_mixer := None\<rparr>)
            | NotInitialized \<Rightarrow> (Inr None, s1\<lparr>audio_mixer := Some b\<rparr>)
            | Opened n \<Rightarrow>
                (let s2 = s1\<lparr>audio_mixer := Some b, bufferSize := Some n\<rparr>
                 in case Channel_new (- 1) s2 of
                      (Inl e, s3) \<Rightarrow> (Inl e, s3)
                    | (Inr c, s3) \<Rightarrow> (Inr None, s3\<lparr>music := True, initialized := True\<rparr>)))
      else (Inr None, s))"

definition Mixer_quit :: "mixer \<Rightarrow> mixer" where
  "Mixer_quit s = s\<lparr>initialized := False\<rparr>"

definition Mixer_get_init :: "mixer \<Rightarrow> (int \<times> int \<times> int) option" where
  "Mixer_get_init s =
     (if initialized s
      then (case the_audio_format s of
              None \<Rightarrow> None
            | Some fmt \<Rightarrow>
                Some (af_sample_rate fmt,
                      af_sample_size fmt * (if af_big_endian fmt then 1 else - 1),
                      af_channels fmt))
      else None)"

text \<open>One round of the shrinking loop of \<open>set_num_channels\<close>.\<close>

definition shrink_step :: "int \<Rightarrow> mixer \<Rightarrow> mixer" where
  "shrink_step i s =
     (let s1 = (case channels s i of
                  None \<Rightarrow> s
                | Some c \<Rightarrow>
                    (let (c', s') = Channel_stop c s
                     in s'\<lparr>channels := (channels s')(i := None)\<rparr>))
      in s1\<lparr>channel_available := remove1 i (channel_available s1)\<rparr>)"

definition Mixer_set_num_channels :: "int \<Rightarrow> mixer \<Rightarrow> mixer" where
  "Mixer_set_num_channels count s =
     (if count \<ge> channel_max s
      then s\<lparr>channel_available := channel_available s @ [channel_max s..count - 1],
             channel_max := count\<rparr>
      else if count \<ge> 0
      then (fold shrink_step [count..channel_max s - 1] s)\<lparr>channel_max := count\<rparr>
      else s)"


definition reserve_step :: "int \<Rightarrow> mixer \<Rightarrow> mixer" where
  "reserve_step i s =
     s\<lparr>channel_reserved := channel_reserved s @ [i],
       channel_available := remove1 i (channel_available s)\<rparr>"

definition Mixer_set_reserved :: "int \<Rightarrow> mixer \<Rightarrow> mixer" where
  "Mixer_set_reserved count s =
     (let count' = (if count > channel_max s then channel_max s
                    else if count < 0 then 0 else count);
          s1 = s\<lparr>channel_reserved_num := count', channel_reserved := []\<rparr>
      in fold reserve_step [0..channel_reserved_num s1 - 1] s1)"

text \<open>The scan of \<open>find_channel(force=True)\<close> over the active deque: the result is
  \<open>(longest, longest_reserved)\<close>; the scan stops at the first id above the reserved
  range.\<close>

fun longest_scan :: "int \<Rightarrow> int list \<Rightarrow> int option \<Rightarrow> int option \<times> int option" where
  "longest_scan rn [] lr = (None, lr)"
| "longest_scan rn (i # ids) lr =
     (if i > rn - 1 then (Some i, lr)
      else if i > - 1
      then longest_scan rn ids (case lr of None \<Rightarrow> Some i | Some x \<Rightarrow> Some x)
      else longest_scan rn ids lr)"

definition some_channel :: "(error + channel) \<times> mixer \<Rightarrow> (error + channel option) \<times> mixer" where
  "some_channel r = (case r of (Inl e, s) \<Rightarrow> (Inl e, s) | (Inr c, s) \<Rightarrow> (Inr (Some c), s))"

definition Mixer_find_channel :: "bool \<Rightarrow> mixer \<Rightarrow> (error + channel option) \<times> mixer" where
  "Mixer_find_channel force s =
     (case channel_available s of
        i # rest \<Rightarrow> some_channel (get_channel i (s\<lparr>channel_available := rest @ [i]\<rparr>))
      | [] \<Rightarrow>
          (case (if channel_reserved_num s \<noteq> 0 then channel_reserved s else []) of
             i # rest \<Rightarrow> some_channel (get_channel i (s\<lparr>channel_reserved := rest @ [i]\<rparr>))
           | [] \<Rightarrow>
               if \<not> force then (Inr None, s)
               else
                 (let (longest, longest_reserved) =
                        longest_scan (channel_reserved_num s) (channel_active s) None;
                      chosen = (case longest of
                                  Some i \<Rightarrow> i
                                | None \<Rightarrow> (case longest_reserved of Some i \<Rightarrow> i | None \<Rightarrow> 0))
                  in some_channel (get_channel chosen s))))"

definition retrieve_channel :: "mixer \<Rightarrow> (error + channel option) \<times> mixer" where
  "retrieve_channel s =
     (case channel_available s of
        [] \<Rightarrow> (Inr None, s)
      | i # rest \<Rightarrow>
          (case get_channel i (s\<lparr>channel_available := rest\<rparr>) of
             (Inl e, s1) \<Rightarrow> (Inl e, s1)
           | (Inr c, s1) \<Rightarrow>
               (Inr (Some c), s1\<lparr>channel_active := channel_active s1 @ [i], active_flag := True\<rparr>)))"

text \<open>\<open>Sound.play\<close>: with no channel retrieved, \<open>None._play\<close> raises the
  \<open>AttributeError\<close> the method swallows, and \<open>None\<close> is returned.\<close>

definition Sound_play :: "sound \<Rightarrow> int \<Rightarrow> mixer \<Rightarrow> (error + channel option) \<times> mixer" where
  "Sound_play sd loops s =
     (case retrieve_channel s of
        (Inl e, s1) \<Rightarrow> (Inl e, s1)
      | (Inr None, s1) \<Rightarrow> (Inr None, s1)
      | (Inr (Some c), s1) \<Rightarrow>
          (let c' = Channel_play' c sd loops in (Inr (Some c'), store c' s1)))"

text \<open>
  \<open>Mixer._read\<close>, what the mixing thread does with the id at the head of the active
  deque when at most one channel is active: look the channel up (\<open>KeyError\<close> when the
  id is not registered), skip it when its active flag is off, else call \<open>_get\<close>, an
  \<open>AttributeError\<close> of which counts as no data. When \<open>data_len\<close> is not zero and a
  gain is below \<open>1.0\<close>, the data goes through \<open>self._mixer.processVolume\<close>, which
  raises \<open>AttributeError\<close> while \<open>self._mixer\<close> is \<open>None\<close>. The result is the
  \<open>data_len\<close>; the scaled bytes are not modelled. (The gains are products of two
  floats of \<open>[0, 1]\<close>; such a product is below \<open>1.0\<close> exactly when the real product
  is, rounding being monotone.)
\<close>

definition Mixer_read :: "int \<Rightarrow> mixer \<Rightarrow> (error + int) \<times> mixer" where
  "Mixer_read i s =
     (case channels s i of
        None \<Rightarrow> (Inl KeyError, s)
      | Some c \<Rightarrow>
          if \<not> c_active c then (Inr 0, s)
          else (case Channel_get c s of
                  (Inl e, c', s') \<Rightarrow>
                    (if e = AttributeError then Inr 0 else Inl e, store c' s')
                | (Inr (n, lv, rv), c', s') \<Rightarrow>
                    (if n \<noteq> 0 \<and> (lv < 1 \<or> rv < 1) \<and> audio_mixer s' = None
                     then Inl AttributeError else Inr n,
                     store c' s')))"

section \<open>Calls of the public interface\<close>

text \<open>
  A method of a channel is reached through \<open>mixer.Channel(id)\<close>, which is
  \<open>Mixer._get_channel\<close>: the registered object, or a new one (registered by its
  constructor). \<open>on_channel\<close> is such a call.
\<close>

definition on_channel ::
  "int \<Rightarrow> (channel \<Rightarrow> mixer \<Rightarrow> channel \<times> mixer) \<Rightarrow> mixer \<Rightarrow> (error + unit) \<times> mixer" where
  "on_channel i m s =
     (case get_channel i s of
        (Inl e, s1) \<Rightarrow> (Inl e, s1)
      | (Inr c, s1) \<Rightarrow> (let (c', s2) = m c s1 in (Inr (), store c' s2)))"

datatype call =
    Init int int bool int int backend
  | Quit
  | SetNumChannels int
  | SetReserved int
  | FindChannel bool
  | SoundPlay sound int
  | ChannelPlay int sound int
  | ChannelStop int
  | ChannelPause int
  | ChannelUnpause int
  | ChannelSetVolume int real "real option"
  | Pull int

text \<open>
  The state a call leaves behind, whether it returned or raised. \<open>Pull i\<close> is the
  mixing thread reading channel \<open>i\<close> (\<open>Mixer._read\<close>; a round of the loop of
  \<open>Mixer._mix\<close> changes the state in the same way). The methods of the mixer that loop
  over the active pool (\<open>stop\<close>, \<open>pause\<close>, \<open>unpause\<close>), \<open>Sound.stop\<close> and the
  methods of \<open>music\<close> call these channel methods on registered channels and have no
  call of their own here.
\<close>

fun exec :: "call \<Rightarrow> mixer \<Rightarrow> mixer" where
  "exec (Init f z zf ch bf b) s = snd (Mixer_init f z zf ch bf b s)"
| "exec Quit s = Mixer_quit s"
| "exec (SetNumChannels n) s = Mixer_set_num_channels n s"
| "exec (SetReserved n) s = Mixer_set_reserved n s"
| "exec (FindChannel force) s = snd (Mixer_find_channel force s)"
| "exec (SoundPlay sd loops) s = snd (Sound_play sd loops s)"
| "exec (ChannelPlay i sd loops) s = snd (on_channel i (\<lambda>c. Channel_play c sd loops) s)"
| "exec (ChannelStop i) s = snd (on_channel i Channel_stop s)"
| "exec (ChannelPause i) s = snd (on_channel i (\<lambda>c m. (Channel_pause c, m)) s)"
| "exec (ChannelUnpause i) s = snd (on_channel i (\<lambda>c m. (Channel_unpause c, m)) s)"
| "exec (ChannelSetVolume i v v2) s = snd (on_channel i (\<lambda>c m. (Channel_set_volume c v v2, m)) s)"
| "exec (Pull i) s = snd (Mixer_read i s)"

text \<open>The states of a mixer: what a new \<open>Mixer\<close> reaches by any sequence of calls.\<close>

inductive reachable :: "mixer \<Rightarrow> bool" where
  reachable_new: "reachable Mixer_new"
| reachable_exec: "reachable s \<Longrightarrow> reachable (exec c s)"

section \<open>The mixing thread's pulls on one channel\<close>

text \<open>
  The mixing thread calls \<open>_get\<close> on a channel once per cycle for as long as the
  channel's active flag is set. \<open>drain k\<close> is \<open>k\<close> such cycles on one channel: it
  collects the \<open>data_len\<close> of every pull and stops early once the channel is no longer
  active (or \<open>_get\<close> raised). The loop of \<open>Mixer.run\<close> writes a pull's data to the
  device only when its \<open>data_len\<close> is positive.
\<close>

fun drain :: "nat \<Rightarrow> channel \<Rightarrow> mixer \<Rightarrow> int list \<times> channel \<times> mixer" where
  "drain 0 c s = ([], c, s)"
| "drain (Suc k) c s =
     (if \<not> c_active c then ([], c, s)
      else (case Channel_get c s of
              (Inl e, c', s') \<Rightarrow> ([], c', s')
            | (Inr (n, lv, rv), c', s') \<Rightarrow>
                (let (ns, c'', s'') = drain k c' s' in (n # ns, c'', s''))))"

section \<open>Notions the properties are stated with\<close>

text \<open>Facts that hold in every state a mixer reaches: the capacity and the reserved
  count are not negative, no id waits in the reserved pool while the reserved count is
  zero, and a channel is registered under its own id, which is below the capacity.\<close>

definition reach_inv :: "mixer \<Rightarrow> bool" where
  "reach_inv s \<longleftrightarrow>
     0 \<le> channel_max s \<and> 0 \<le> channel_reserved_num s
     \<and> (channel_reserved_num s = 0 \<longrightarrow> channel_reserved s = [])
     \<and> (\<forall>i c. channels s i = Some c \<longrightarrow> c_id c = i \<and> i < channel_max s)"

text \<open>The count \<open>set_reserved\<close> works with after its two tests.\<close>

definition clamp_reserved :: "int \<Rightarrow> mixer \<Rightarrow> int" where
  "clamp_reserved count s =
     (if count > channel_max s then channel_max s else if count < 0 then 0 else count)"

text \<open>
  The reclamation candidate in the spec's words: the oldest-activated non-reserved
  channel id of the active pool if one exists, else the oldest-activated reserved id,
  else channel \<open>0\<close>. The active pool is in activation order; an id is reserved when it
  is in \<open>[0, reserved_count)\<close> and non-reserved when it is at or above the reserved count.
\<close>

definition reclaim_candidate :: "mixer \<Rightarrow> int" where
  "reclaim_candidate s =
     (case List.find (\<lambda>i. channel_reserved_num s \<le> i) (channel_active s) of
        Some i \<Rightarrow> i
      | None \<Rightarrow>
          (case List.find (\<lambda>i. 0 \<le> i \<and> i < channel_reserved_num s) (channel_active s) of
             Some i \<Rightarrow> i
           | None \<Rightarrow> 0))"

text \<open>The id \<open>find_channel(force=True)\<close> settles on: the head of the available pool,
  else the head of the reserved pool, else the reclamation candidate.\<close>

definition selected_id :: "mixer \<Rightarrow> int" where
  "selected_id s =
     (case channel_available s @ channel_reserved s of
        i # rest \<Rightarrow> i
      | [] \<Rightarrow> reclaim_candidate s)"

text \<open>The pools after the peek of \<open>find_channel\<close>: the head of the available pool, or
  else of the reserved pool, has moved to the tail.\<close>

definition peeked :: "mixer \<Rightarrow> mixer" where
  "peeked s =
     (if channel_available s \<noteq> [] then s\<lparr>channel_available := rotate1 (channel_available s)\<rparr>
      else if channel_reserved s \<noteq> [] then s\<lparr>channel_reserved := rotate1 (channel_reserved s)\<rparr>
      else s)"


text \<open>In how many places of the three pools an id is: the partition of the ids asks for
  exactly one place for every id of \<open>[0, channel_max)\<close>.\<close>

definition pool_count :: "mixer \<Rightarrow> int \<Rightarrow> nat" where
  "pool_count s i =
     count_list (channel_available s) i + count_list (channel_reserved s) i
       + count_list (channel_active s) i"

section \<open>Example values and call sequences\<close>

text \<open>A sound of two reads, of four and of two bytes.\<close>

definition example_sound :: sound where
  "example_sound = \<lparr>s_id = 0, s_sound_object = [Read 4, Read 2], s_volume = 1\<rparr>"

text \<open>A playing channel after \<open>set_volume(0.5, -0.1)\<close>: left \<open>0.5\<close>, right \<open>0.0\<close>.\<close>

definition muted_right :: channel where
  "muted_right =
     Channel_set_volume (fst (Channel_play (fresh_channel 0) example_sound 0 Mixer_new))
       (1/2) (Some (- (1/10)))"

text \<open>A channel playing with \<open>loops = -1\<close> whose stream is at its end.\<close>

definition at_end_forever :: channel where
  "at_end_forever = (Channel_play' (fresh_channel 0) example_sound (- 1))\<lparr>c_stream := Some []\<rparr>"

text \<open>A successful \<open>init\<close> with the default arguments, and the calls that leave id
  \<open>4\<close> twice in the available pool.\<close>

definition init_call :: call where
  "init_call = Init 22050 (- 16) False 2 4096 (Opened 4096)"


text \<open>Channel \<open>7\<close> plays and is paused, the capacity shrinks to one, and
  \<open>Sound.play\<close> takes the last free channel.\<close>

definition stale_active_calls :: "call list" where
  "stale_active_calls =
     [init_call, ChannelPlay 7 example_sound 0, ChannelPause 7, SetNumChannels 1,
      SoundPlay example_sound 0]"

text \<open>
  Reserve all eight channels, peek four times (the reserved pool is rotated to
  \<open>4, 5, 6, 7, 0, 1, 2, 3\<close>), then shrink the capacity to four: \<open>set_num_channels\<close>
  takes ids out of the available pool only, so ids \<open>4 .. 7\<close> stay in the reserved pool.
\<close>

definition reserved_beyond_capacity_calls :: "call list" where
  "reserved_beyond_capacity_calls =
     [init_call, SetReserved 8, FindChannel False, FindChannel False, FindChannel False,
      FindChannel False, SetNumChannels 4]"

text \<open>Two reserved channels, then every channel playing: \<open>1\<close> and \<open>0\<close> first, the
  other six through \<open>Sound.play\<close>.\<close>

definition all_busy_calls :: "call list" where
  "all_busy_calls =
     [init_call, SetReserved 2, ChannelPlay 1 example_sound 0, ChannelPlay 0 example_sound 0,
      SoundPlay example_sound 0, SoundPlay example_sound 0, SoundPlay example_sound 0,
      SoundPlay example_sound 0, SoundPlay example_sound 0, SoundPlay example_sound 0]"


text \<open>Channel \<open>0\<close> plays, is paused and is given a sound again; the same without the
  pause; and a reservation of two channels that is taken back.\<close>

definition replay_paused_calls :: "call list" where
  "replay_paused_calls =
     [init_call, ChannelPlay 0 example_sound 0, ChannelPause 0, ChannelPlay 0 example_sound 0]"

definition replay_playing_calls :: "call list" where
  "replay_playing_calls =
     [init_call, ChannelPlay 0 example_sound 0, ChannelPlay 0 example_sound 0]"

definition unreserve_calls :: "call list" where
  "unreserve_calls = [SetReserved 2, SetReserved 0]"

section \<open>Properties of a channel\<close>

lemma Channel_stop_inactive: "\<not> c_active c \<Longrightarrow> Channel_stop c s = (c, s)"
  by (simp add: Channel_stop_def)

lemma Channel_stop_result_inactive: "\<not> c_active (fst (Channel_stop c s))"
  by (simp add: Channel_stop_def Let_def)

text \<open>
  C9. \<open>Channel.stop\<close> on a channel whose active flag is off returns at once: the channel
  object and the mixer (its three pools included) are unchanged. This covers a paused
  channel (\<open>pause\<close> clears the flag) and a channel just constructed. A stopped channel
  has the flag off, so a second \<open>stop\<close> changes nothing: stopping twice is stopping once.
\<close>

theorem Channel_stop_inactive_noop:
  "(\<not> c_active c \<longrightarrow> Channel_stop c s = (c, s))
   \<and> Channel_stop (Channel_pause c) s = (Channel_pause c, s)
   \<and> (Channel_new i s = (Inr c', s') \<longrightarrow> Channel_stop c' s' = (c', s'))
   \<and> Channel_stop (fst (Channel_stop c s)) (snd (Channel_stop c s)) = Channel_stop c s"
proof (intro conjI impI)
  show "Channel_stop (Channel_pause c) s = (Channel_pause c, s)"
    by (rule Channel_stop_inactive) (simp add: Channel_pause_def)
next
  assume "Channel_new i s = (Inr c', s')"
  then have "\<not> c_active c'"
    by (auto simp: Channel_new_def register_channel_def fresh_channel_def split: option.splits if_splits)
  then show "Channel_stop c' s' = (c', s')" by (rule Channel_stop_inactive)
next
  have "Channel_stop (fst (Channel_stop c s)) (snd (Channel_stop c s))
          = (fst (Channel_stop c s), snd (Channel_stop c s))"
    by (rule Channel_stop_inactive) (rule Channel_stop_result_inactive)
  then show "Channel_stop (fst (Channel_stop c s)) (snd (Channel_stop c s)) = Channel_stop c s"
    by simp
qed (simp add: Channel_stop_inactive)

theorem Channel_stop_inactive_noop_witness:
  "\<not> c_active (fresh_channel 3) \<and> Channel_stop (fresh_channel 3) Mixer_new = (fresh_channel 3, Mixer_new)"
  using Channel_stop_inactive_noop [of "fresh_channel 3" Mixer_new]
  by (simp add: fresh_channel_def)

text \<open>
  C10. \<open>Channel.set_volume(0.5, 0.0)\<close>: the second argument is supplied but is false as a
  Python truth value, so the method takes the branch for an omitted argument and the
  right volume becomes the left one, \<open>0.5\<close>, not \<open>0.0\<close>.
\<close>

theorem Channel_set_volume_zero_right:
  "c_lvolume (Channel_set_volume c (1/2) (Some 0)) = 1/2
   \<and> c_rvolume (Channel_set_volume c (1/2) (Some 0)) = 1/2"
  by (simp add: Channel_set_volume_def truthy_def Let_def)

text \<open>With the second argument omitted the volume is clamped to \<open>[0, 1]\<close>, applied to both
  sides and returned by \<open>get_volume\<close>; a second argument other than zero is clamped and
  applied to the right side.\<close>

lemma Channel_set_volume_mono:
  "Channel_get_volume (Channel_set_volume c v None) = max 0 (min 1 v)
   \<and> c_lvolume (Channel_set_volume c v None) = max 0 (min 1 v)
   \<and> c_rvolume (Channel_set_volume c v None) = max 0 (min 1 v)"
  by (simp add: Channel_set_volume_def truthy_def Let_def Channel_get_volume_def max_def min_def)

lemma Channel_set_volume_examples:
  "Channel_get_volume (Channel_set_volume c (4/10) None) = 4/10
   \<and> Channel_get_volume (Channel_set_volume c (15/10) None) = 1
   \<and> Channel_get_volume (Channel_set_volume c (- (1/10)) None) = 0"
  by (simp add: Channel_set_volume_def truthy_def Let_def Channel_get_volume_def)

lemma Channel_set_volume_stereo:
  "r \<noteq> 0 \<Longrightarrow>
     c_lvolume (Channel_set_volume c l (Some r)) = max 0 (min 1 l)
     \<and> c_rvolume (Channel_set_volume c l (Some r)) = max 0 (min 1 r)"
  by (simp add: Channel_set_volume_def truthy_def Let_def max_def min_def)

text \<open>
  C8. A channel that plays with left volume \<open>0.5\<close> and right volume \<open>0.0\<close> (set by
  \<open>set_volume(0.5, -0.1)\<close>) is given a new sound with \<open>Channel.play\<close>: the saved
  volumes are re-applied by \<open>set_volume(0.5, 0.0)\<close>, which reads the zero as an omitted
  argument, and the right volume comes back as \<open>0.5\<close>.
\<close>

theorem Channel_play_loses_zero_right_volume:
  "c_sound muted_right \<noteq> None
   \<and> c_lvolume muted_right = 1/2 \<and> c_rvolume muted_right = 0
   \<and> c_lvolume (fst (Channel_play muted_right example_sound 0 s)) = 1/2
   \<and> c_rvolume (fst (Channel_play muted_right example_sound 0 s)) = 1/2"
  by (simp add: muted_right_def Channel_play_def Channel_set_volume_def truthy_def Let_def
      Channel_stop_def Channel_set_sound_def fresh_channel_def split_def)

text \<open>With a right volume other than zero the volumes do survive the call.\<close>

lemma Channel_play_keeps_volumes:
  assumes "c_sound c \<noteq> None" "0 \<le> c_lvolume c" "c_lvolume c \<le> 1"
    "0 < c_rvolume c" "c_rvolume c \<le> 1"
  shows "c_lvolume (fst (Channel_play c sd loops s)) = c_lvolume c
         \<and> c_rvolume (fst (Channel_play c sd loops s)) = c_rvolume c"
  using assms
  by (simp add: Channel_play_def Channel_set_volume_def truthy_def Let_def
      Channel_stop_def Channel_set_sound_def split_def)

section \<open>End of stream and loops\<close>

lemma Channel_get_read:
  "c_stream c = Some (Read n # st) \<Longrightarrow> 0 < n \<Longrightarrow> c_sound c = Some sd \<Longrightarrow>
     Channel_get c s =
       (Inr (n, c_lvolume c * s_volume sd, c_rvolume c * s_volume sd),
        c\<lparr>c_data_len := n, c_stream := Some st\<rparr>, s)"
  by (simp add: Channel_get_def stream_read_def)

lemma Channel_get_eos_stop:
  "c_stream c = Some st \<Longrightarrow> fst (stream_read st) \<le> 0 \<Longrightarrow> c_loops c = 0 \<Longrightarrow>
     Channel_get c s =
       (Inr (fst (stream_read st), 1, 1),
        Channel_stop (c\<lparr>c_data_len := fst (stream_read st),
                        c_stream := Some (snd (stream_read st))\<rparr>) s)"
  by (simp add: Channel_get_def split_def Channel_stop_def Let_def)

lemma Channel_get_eos_loop:
  "c_stream c = Some st \<Longrightarrow> fst (stream_read st) \<le> 0 \<Longrightarrow> c_loops c \<noteq> 0 \<Longrightarrow>
   c_sound c = Some sd \<Longrightarrow>
     Channel_get c s =
       (Inr (fst (stream_read st), 1, 1),
        c\<lparr>c_data_len := fst (stream_read st),
          c_stream := Some (s_sound_object sd), c_loops := c_loops c - 1\<rparr>, s)"
  by (simp add: Channel_get_def split_def Channel_set_sound_def Let_def)

lemma drain_inactive: "\<not> c_active c \<Longrightarrow> drain f c s = ([], c, s)"
  by (cases f) simp_all

lemma drain_reads:
  "\<forall>n\<in>set ms. 0 < n \<Longrightarrow> c_active c \<Longrightarrow> c_sound c = Some sd \<Longrightarrow>
   c_stream c = Some (map Read ms @ st) \<Longrightarrow>
     drain (length ms + f) c s =
       (case drain f (c\<lparr>c_data_len := (if ms = [] then c_data_len c else last ms),
                         c_stream := Some st\<rparr>) s of
          (r, c', s') \<Rightarrow> (ms @ r, c', s'))"
proof (induction ms arbitrary: c)
  case Nil
  then have "c\<lparr>c_data_len := c_data_len c, c_stream := Some st\<rparr> = c" by simp
  then show ?case by (simp add: split_def)
next
  case (Cons m ms)
  let ?c1 = "c\<lparr>c_data_len := m, c_stream := Some (map Read ms @ st)\<rparr>"
  have get: "Channel_get c s =
      (Inr (m, c_lvolume c * s_volume sd, c_rvolume c * s_volume sd), ?c1, s)"
    using Cons.prems by (intro Channel_get_read) simp_all
  have ih: "drain (length ms + f) ?c1 s =
       (case drain f (?c1\<lparr>c_data_len := (if ms = [] then c_data_len ?c1 else last ms),
                         c_stream := Some st\<rparr>) s of
          (r, c', s') \<Rightarrow> (ms @ r, c', s'))"
    using Cons.prems by (intro Cons.IH) simp_all
  have eq: "?c1\<lparr>c_data_len := (if ms = [] then c_data_len ?c1 else last ms), c_stream := Some st\<rparr>
      = c\<lparr>c_data_len := (if m # ms = [] then c_data_len c else last (m # ms)), c_stream := Some st\<rparr>"
    by simp
  show ?case
    using Cons.prems(2) get ih unfolding eq by (simp add: split_def)
qed

lemma drain_playthroughs:
  "\<forall>n\<in>set ns. 0 < n \<Longrightarrow> c_active c \<Longrightarrow> c_sound c = Some sd \<Longrightarrow>
   s_sound_object sd = map Read ns \<Longrightarrow> c_stream c = Some (map Read ns) \<Longrightarrow>
   c_loops c = int k \<Longrightarrow>
     drain ((k + 1) * (length ns + 1) + extra) c s =
       (concat (replicate (k + 1) (ns @ [- 1])),
        Channel_stop (c\<lparr>c_data_len := - 1\<rparr>) s)"
proof (induction k arbitrary: c)
  case 0
  let ?c1 = "c\<lparr>c_data_len := (if ns = [] then c_data_len c else last ns), c_stream := Some []\<rparr>"
  have reads: "drain (length ns + Suc extra) c s =
      (case drain (Suc extra) ?c1 s of (r, c', s') \<Rightarrow> (ns @ r, c', s'))"
    using "0.prems" by (intro drain_reads [where sd = sd]) simp_all
  have get: "Channel_get ?c1 s =
      (Inr (- 1, 1, 1), Channel_stop (?c1\<lparr>c_data_len := - 1, c_stream := Some []\<rparr>) s)"
    using "0.prems" Channel_get_eos_stop [of ?c1 "[]" s] by (simp add: stream_read_def)
  have stop: "Channel_stop (?c1\<lparr>c_data_len := - 1, c_stream := Some []\<rparr>) s
      = Channel_stop (c\<lparr>c_data_len := - 1\<rparr>) s"
    using "0.prems" by (simp add: Channel_stop_def Let_def)
  have inact: "\<not> c_active (fst (Channel_stop (c\<lparr>c_data_len := - 1\<rparr>) s))"
    by (simp add: Channel_stop_def Let_def)
  have "drain (Suc extra) ?c1 s = ([- 1], Channel_stop (c\<lparr>c_data_len := - 1\<rparr>) s)"
    using "0.prems"(2) get stop drain_inactive [OF inact, of extra "snd (Channel_stop (c\<lparr>c_data_len := - 1\<rparr>) s)"]
    by (simp add: split_def)
  with reads show ?case by simp
next
  case (Suc k)
  let ?c1 = "c\<lparr>c_data_len := (if ns = [] then c_data_len c else last ns), c_stream := Some []\<rparr>"
  let ?c2 = "?c1\<lparr>c_data_len := - 1, c_stream := Some (s_sound_object sd), c_loops := c_loops ?c1 - 1\<rparr>"
  let ?f = "(k + 1) * (length ns + 1) + extra"
  have fuel: "(Suc k + 1) * (length ns + 1) + extra = length ns + Suc ?f" by simp
  have reads: "drain (length ns + Suc ?f) c s =
      (case drain (Suc ?f) ?c1 s of (r, c', s') \<Rightarrow> (ns @ r, c', s'))"
    using Suc.prems by (intro drain_reads [where sd = sd]) simp_all
  have get: "Channel_get ?c1 s = (Inr (- 1, 1, 1), ?c2, s)"
    using Suc.prems Channel_get_eos_loop [of ?c1 "[]" sd s] by (simp add: stream_read_def)
  have ih: "drain ?f ?c2 s =
      (concat (replicate (k + 1) (ns @ [- 1])), Channel_stop (?c2\<lparr>c_data_len := - 1\<rparr>) s)"
    using Suc.prems by (intro Suc.IH) simp_all
  have stop: "Channel_stop (?c2\<lparr>c_data_len := - 1\<rparr>) s = Channel_stop (c\<lparr>c_data_len := - 1\<rparr>) s"
    using Suc.prems by (simp add: Channel_stop_def Let_def)
  have "drain (Suc ?f) ?c1 s =
      (- 1 # concat (replicate (k + 1) (ns @ [- 1])), Channel_stop (c\<lparr>c_data_len := - 1\<rparr>) s)"
    using Suc.prems(2) get ih stop by (simp add: split_def)
  with reads show ?case unfolding fuel by simp
qed


lemma Channel_play_starts:
  "c_active (fst (Channel_play c0 sd loops s0))
   \<and> c_sound (fst (Channel_play c0 sd loops s0)) = Some sd
   \<and> c_stream (fst (Channel_play c0 sd loops s0)) = Some (s_sound_object sd)
   \<and> c_loops (fst (Channel_play c0 sd loops s0)) = loops"
  by (simp add: Channel_play_def Channel_set_sound_def split_def Let_def)

lemma Channel_get_negative_loops:
  assumes "c_active c" "c_sound c = Some sd" "c_stream c \<noteq> None" "c_loops c < 0"
  shows "\<exists>r c'. Channel_get c s = (Inr r, c', s) \<and> c_active c' \<and> c_sound c' = Some sd
           \<and> c_stream c' \<noteq> None \<and> c_loops c' < 0"
  using assms
  by (auto simp: Channel_get_def split_def Let_def Channel_set_sound_def)

lemma drain_negative_loops:
  "c_active c \<Longrightarrow> c_sound c = Some sd \<Longrightarrow> c_stream c \<noteq> None \<Longrightarrow> c_loops c < 0 \<Longrightarrow>
     length (fst (drain f c s)) = f \<and> c_active (fst (snd (drain f c s)))"
proof (induction f arbitrary: c)
  case 0
  then show ?case by simp
next
  case (Suc f)
  from Channel_get_negative_loops [OF Suc.prems, of s]
  obtain r c' where get: "Channel_get c s = (Inr r, c', s)"
    and c': "c_active c'" "c_sound c' = Some sd" "c_stream c' \<noteq> None" "c_loops c' < 0"
    by blast
  from Suc.IH [OF c'] Suc.prems(1) get show ?case
    by (cases r) (simp add: split_def Let_def)
qed

text \<open>
  C2, as the code has it. A pull that meets the end of the stream (the cursor's \<open>read\<close>
  gives \<open>-1\<close>, or \<open>0\<close> after an \<open>IOException\<close>) returns that \<open>data_len\<close> with
  gains \<open>1.0\<close>, so nothing is written for the cycle. With \<open>loops = 0\<close> the channel
  is stopped by \<open>stop()\<close>. With any other \<open>loops\<close> the sound's stream is opened anew
  and \<open>loops\<close> is decremented, \<open>-1\<close> included: a negative count only moves further
  from zero, so the channel plays on for ever. After \<open>play(sound, loops = k)\<close>, for a
  sound whose stream gives the positive lengths \<open>ns\<close>, the pulls deliver \<open>k + 1\<close> times
  the lengths \<open>ns\<close> followed by one pull without data, and the channel is then stopped
  (further cycles pull nothing); \<open>k = 2\<close> gives three playthroughs.
\<close>

theorem Channel_get_end_of_stream:
  "(c_stream c = Some st \<and> fst (stream_read st) \<le> 0 \<and> c_loops c = 0 \<longrightarrow>
      Channel_get c s =
        (Inr (fst (stream_read st), 1, 1),
         Channel_stop (c\<lparr>c_data_len := fst (stream_read st),
                         c_stream := Some (snd (stream_read st))\<rparr>) s))
   \<and> (c_stream c = Some st \<and> fst (stream_read st) \<le> 0 \<and> c_loops c \<noteq> 0
        \<and> c_sound c = Some sd \<longrightarrow>
      Channel_get c s =
        (Inr (fst (stream_read st), 1, 1),
         c\<lparr>c_data_len := fst (stream_read st),
           c_stream := Some (s_sound_object sd), c_loops := c_loops c - 1\<rparr>, s))
   \<and> ((\<forall>n\<in>set ns. 0 < n) \<and> s_sound_object sd = map Read ns \<longrightarrow>
      drain ((k + 1) * (length ns + 1) + extra) (fst (Channel_play c0 sd (int k) s0)) s =
        (concat (replicate (k + 1) (ns @ [- 1])),
         Channel_stop ((fst (Channel_play c0 sd (int k) s0))\<lparr>c_data_len := - 1\<rparr>) s))
   \<and> (loops < 0 \<longrightarrow>
      length (fst (drain f (fst (Channel_play c0 sd loops s0)) s)) = f
      \<and> c_active (fst (snd (drain f (fst (Channel_play c0 sd loops s0)) s))))"
proof (intro conjI impI)
  assume "c_stream c = Some st \<and> fst (stream_read st) \<le> 0 \<and> c_loops c = 0"
  then show "Channel_get c s =
        (Inr (fst (stream_read st), 1, 1),
         Channel_stop (c\<lparr>c_data_len := fst (stream_read st),
                         c_stream := Some (snd (stream_read st))\<rparr>) s)"
    by (simp add: Channel_get_eos_stop)
next
  assume "c_stream c = Some st \<and> fst (stream_read st) \<le> 0 \<and> c_loops c \<noteq> 0
        \<and> c_sound c = Some sd"
  then show "Channel_get c s =
        (Inr (fst (stream_read st), 1, 1),
         c\<lparr>c_data_len := fst (stream_read st),
           c_stream := Some (s_sound_object sd), c_loops := c_loops c - 1\<rparr>, s)"
    by (simp add: Channel_get_eos_loop)
next
  assume a: "(\<forall>n\<in>set ns. 0 < n) \<and> s_sound_object sd = map Read ns"
  note st = Channel_play_starts [of c0 sd "int k" s0]
  show "drain ((k + 1) * (length ns + 1) + extra) (fst (Channel_play c0 sd (int k) s0)) s =
        (concat (replicate (k + 1) (ns @ [- 1])),
         Channel_stop ((fst (Channel_play c0 sd (int k) s0))\<lparr>c_data_len := - 1\<rparr>) s)"
    using a st by (intro drain_playthroughs [where sd = sd]) simp_all
next
  assume "loops < 0"
  with Channel_play_starts [of c0 sd loops s0]
  have "length (fst (drain f (fst (Channel_play c0 sd loops s0)) s)) = f
      \<and> c_active (fst (snd (drain f (fst (Channel_play c0 sd loops s0)) s)))"
    by (intro drain_negative_loops [where sd = sd]) simp_all
  then show "length (fst (drain f (fst (Channel_play c0 sd loops s0)) s)) = f"
    and "c_active (fst (snd (drain f (fst (Channel_play c0 sd loops s0)) s)))"
    by simp_all
qed

theorem Channel_get_end_of_stream_witness:
  "fst (drain 9 (fst (Channel_play (fresh_channel 0) example_sound 2 Mixer_new))
          (snd (Channel_play (fresh_channel 0) example_sound 2 Mixer_new)))
     = [4, 2, - 1, 4, 2, - 1, 4, 2, - 1]
   \<and> \<not> c_active (fst (snd (drain 9 (fst (Channel_play (fresh_channel 0) example_sound 2 Mixer_new))
          (snd (Channel_play (fresh_channel 0) example_sound 2 Mixer_new)))))"
proof -
  have h: "(\<forall>n\<in>set [4, 2]. 0 < (n::int)) \<and> s_sound_object example_sound = map Read [4, 2]"
    by (simp add: example_sound_def)
  have e: "(2 + 1) * (length [4, 2 :: int] + 1) + 0 = (9::nat)" by simp
  have r: "concat (replicate (2 + 1) ([4, 2] @ [- 1])) = [4, 2, - 1, 4, 2, - 1, 4, 2, - 1 :: int]"
    by (simp add: numeral_3_eq_3)
  have i: "int 2 = 2" by simp
  have "drain ((2 + 1) * (length [4, 2 :: int] + 1) + 0)
          (fst (Channel_play (fresh_channel 0) example_sound (int 2) Mixer_new))
          (snd (Channel_play (fresh_channel 0) example_sound 2 Mixer_new))
      = (concat (replicate (2 + 1) ([4, 2] @ [- 1])),
         Channel_stop ((fst (Channel_play (fresh_channel 0) example_sound (int 2) Mixer_new))
                         \<lparr>c_data_len := - 1\<rparr>)
           (snd (Channel_play (fresh_channel 0) example_sound 2 Mixer_new)))"
    using Channel_get_end_of_stream [where ns = "[4, 2]" and sd = example_sound and k = 2
      and extra = 0 and ?c0.0 = "fresh_channel 0" and ?s0.0 = Mixer_new
      and s = "snd (Channel_play (fresh_channel 0) example_sound 2 Mixer_new)"] h
    by blast
  then have d: "drain 9 (fst (Channel_play (fresh_channel 0) example_sound 2 Mixer_new))
          (snd (Channel_play (fresh_channel 0) example_sound 2 Mixer_new))
      = ([4, 2, - 1, 4, 2, - 1, 4, 2, - 1],
         Channel_stop ((fst (Channel_play (fresh_channel 0) example_sound 2 Mixer_new))
                         \<lparr>c_data_len := - 1\<rparr>)
           (snd (Channel_play (fresh_channel 0) example_sound 2 Mixer_new)))"
    unfolding e r i .
  show ?thesis
    unfolding d by (simp only: fst_conv snd_conv Channel_stop_result_inactive simp_thms)
qed

text \<open>
  C2 as stated fails where it calls the decrement a no-op for \<open>-1\<close>: a channel playing
  with \<open>loops = -1\<close> that meets the end of its stream has \<open>loops = -2\<close> afterwards.
\<close>

theorem Channel_get_minus_one_decrements:
  "c_loops at_end_forever = - 1
   \<and> c_loops (fst (snd (Channel_get at_end_forever Mixer_new))) = - 2
   \<and> fst (Channel_get at_end_forever Mixer_new) = Inr (- 1, 1, 1)"
  by (simp add: at_end_forever_def Channel_play'_def Channel_set_sound_def Channel_get_def
      stream_read_def Let_def fresh_channel_def example_sound_def)

section \<open>Initialization\<close>

lemma Mixer_init_never_returns_format: "fst (Mixer_init f z zf ch bf b s) \<noteq> Inr (Some fmt)"
  by (cases b)
    (auto simp: Mixer_init_def Let_def Channel_new_def register_channel_def
      split: option.splits prod.splits sum.splits if_splits)

lemma Mixer_init_failure:
  assumes "\<forall>n. b \<noteq> Opened n"
  shows "fst (Mixer_init f z zf ch bf b s) = Inr None"
    and "initialized (snd (Mixer_init f z zf ch bf b s)) = initialized s"
    and "channel_available (snd (Mixer_init f z zf ch bf b s)) = channel_available s"
    and "channel_active (snd (Mixer_init f z zf ch bf b s)) = channel_active s"
    and "channel_reserved (snd (Mixer_init f z zf ch bf b s)) = channel_reserved s"
  using assms by (cases b; simp add: Mixer_init_def Let_def)+

lemma Mixer_init_success:
  assumes "\<not> initialized s" "- 1 < channel_max s"
  shows "fst (Mixer_init f z zf ch bf (Opened n) s) = Inr None"
    and "initialized (snd (Mixer_init f z zf ch bf (Opened n) s))"
    and "Mixer_get_init (snd (Mixer_init f z zf ch bf (Opened n) s))
           = Some (f, \<bar>z\<bar> * (if zf then 1 else - 1), if ch \<le> 1 then 1 else 2)"
  using assms
  by (simp_all add: Mixer_init_def Let_def Channel_new_def register_channel_def
      Mixer_get_init_def fresh_channel_def)

lemma fresh_channel_sel [simp]:
  "c_id (fresh_channel i) = i" "c_sound (fresh_channel i) = None"
  "c_stream (fresh_channel i) = None" "\<not> c_active (fresh_channel i)"
  "\<not> c_pause (fresh_channel i)"
  by (simp_all add: fresh_channel_def)

lemma Mixer_new_available: "channel_available Mixer_new = [0, 1, 2, 3, 4, 5, 6, 7]"
proof -
  have "[0..7] = [0, 1, 2, 3, 4, 5, 6, 7 :: int]" by code_simp
  then show ?thesis by (simp add: Mixer_new_def)
qed

lemma Sound_play_first_channel:
  assumes "channel_available s = i # rest" "channels s i = None" "bufferSize s = Some bf"
    "i < channel_max s"
  shows "fst (Sound_play sd loops s) = Inr (Some (Channel_play' (fresh_channel i) sd loops))"
    and "channel_active (snd (Sound_play sd loops s)) = channel_active s @ [i]"
    and "channel_available (snd (Sound_play sd loops s)) = rest"
  using assms
  by (simp_all add: Sound_play_def retrieve_channel_def get_channel_def Channel_new_def
      register_channel_def store_def Let_def)

lemma Mixer_init_failure_fields:
  assumes "\<forall>n. b \<noteq> Opened n" "\<not> initialized s"
  shows "channels (snd (Mixer_init f z zf ch bf b s)) = channels s"
    and "bufferSize (snd (Mixer_init f z zf ch bf b s)) = Some bf"
    and "channel_max (snd (Mixer_init f z zf ch bf b s)) = channel_max s"
  using assms by (cases b; simp add: Mixer_init_def Let_def)+

lemma Sound_play_after_failed_init:
  assumes "\<forall>n. b \<noteq> Opened n"
  shows "fst (Sound_play sd loops (snd (Mixer_init f z zf ch bf b Mixer_new)))
           = Inr (Some (Channel_play' (fresh_channel 0) sd loops))"
    and "channel_active (snd (Sound_play sd loops (snd (Mixer_init f z zf ch bf b Mixer_new)))) = [0]"
    and "channel_available (snd (Sound_play sd loops (snd (Mixer_init f z zf ch bf b Mixer_new))))
           = [1, 2, 3, 4, 5, 6, 7]"
proof -
  let ?s = "snd (Mixer_init f z zf ch bf b Mixer_new)"
  have n: "\<not> initialized Mixer_new" by (simp add: Mixer_new_def)
  have av: "channel_available ?s = 0 # [1, 2, 3, 4, 5, 6, 7]"
    using Mixer_init_failure(3) [OF assms] Mixer_new_available by simp
  have ac: "channel_active ?s = []"
    using Mixer_init_failure(4) [OF assms, of f z zf ch bf Mixer_new] by (simp add: Mixer_new_def)
  have ch: "channels ?s 0 = None" and bf: "bufferSize ?s = Some bf" and mx: "0 < channel_max ?s"
    using Mixer_init_failure_fields [OF assms n, of f z zf ch bf] by (simp_all add: Mixer_new_def)
  from Sound_play_first_channel [OF av ch bf mx, of sd loops] ac
  show "fst (Sound_play sd loops ?s) = Inr (Some (Channel_play' (fresh_channel 0) sd loops))"
    and "channel_active (snd (Sound_play sd loops ?s)) = [0]"
    and "channel_available (snd (Sound_play sd loops ?s)) = [1, 2, 3, 4, 5, 6, 7]"
    by simp_all
qed

text \<open>
  C7, as the code has it. \<open>Mixer.init\<close> never returns a format: every path ends in
  \<open>return None\<close>. When the backend cannot be opened the call returns \<open>None\<close>, the
  initialized flag and the pools are as before, and \<open>get_init\<close> still answers
  \<open>None\<close> on a mixer that was not initialized. On success the mixer is initialized
  and the negotiated format is what \<open>get_init\<close> answers. A failed \<open>init\<close> does not
  turn playback into a no-op: on a new mixer \<open>Sound.play\<close> then takes channel \<open>0\<close>
  from the available pool, puts it into the active pool and returns it, playing.
\<close>

theorem Mixer_init_result:
  "(\<forall>fmt. fst (Mixer_init f z zf ch bf b s) \<noteq> Inr (Some fmt))
   \<and> ((\<forall>n. b \<noteq> Opened n) \<longrightarrow>
        fst (Mixer_init f z zf ch bf b s) = Inr None
        \<and> initialized (snd (Mixer_init f z zf ch bf b s)) = initialized s
        \<and> (\<not> initialized s \<longrightarrow> Mixer_get_init (snd (Mixer_init f z zf ch bf b s)) = None)
        \<and> fst (Sound_play sd loops (snd (Mixer_init f z zf ch bf b Mixer_new)))
             = Inr (Some (Channel_play' (fresh_channel 0) sd loops))
        \<and> channel_active (snd (Sound_play sd loops (snd (Mixer_init f z zf ch bf b Mixer_new))))
             = [0]
        \<and> channel_available (snd (Sound_play sd loops (snd (Mixer_init f z zf ch bf b Mixer_new))))
             = [1, 2, 3, 4, 5, 6, 7])
   \<and> (\<not> initialized s \<and> - 1 < channel_max s \<longrightarrow>
        fst (Mixer_init f z zf ch bf (Opened n) s) = Inr None
        \<and> initialized (snd (Mixer_init f z zf ch bf (Opened n) s))
        \<and> Mixer_get_init (snd (Mixer_init f z zf ch bf (Opened n) s))
             = Some (f, \<bar>z\<bar> * (if zf then 1 else - 1), if ch \<le> 1 then 1 else 2))"
proof (intro conjI allI impI)
  fix fmt show "fst (Mixer_init f z zf ch bf b s) \<noteq> Inr (Some fmt)"
    by (rule Mixer_init_never_returns_format)
next
  assume b: "\<forall>n. b \<noteq> Opened n"
  show "fst (Mixer_init f z zf ch bf b s) = Inr None"
    and i: "initialized (snd (Mixer_init f z zf ch bf b s)) = initialized s"
    using Mixer_init_failure [OF b] by simp_all
  show "fst (Sound_play sd loops (snd (Mixer_init f z zf ch bf b Mixer_new)))
             = Inr (Some (Channel_play' (fresh_channel 0) sd loops))"
    and "channel_active (snd (Sound_play sd loops (snd (Mixer_init f z zf ch bf b Mixer_new))))
             = [0]"
    and "channel_available (snd (Sound_play sd loops (snd (Mixer_init f z zf ch bf b Mixer_new))))
             = [1, 2, 3, 4, 5, 6, 7]"
    using Sound_play_after_failed_init [OF b] by simp_all
  assume "\<not> initialized s"
  with i show "Mixer_get_init (snd (Mixer_init f z zf ch bf b s)) = None"
    by (simp add: Mixer_get_init_def)
next
  assume a: "\<not> initialized s \<and> - 1 < channel_max s"
  then show "fst (Mixer_init f z zf ch bf (Opened n) s) = Inr None"
    and "initialized (snd (Mixer_init f z zf ch bf (Opened n) s))"
    and "Mixer_get_init (snd (Mixer_init f z zf ch bf (Opened n) s))
             = Some (f, \<bar>z\<bar> * (if zf then 1 else - 1), if ch \<le> 1 then 1 else 2)"
    using Mixer_init_success [of s f z zf ch bf n] by simp_all
qed

theorem Mixer_init_result_witness:
  "fst (Mixer_init 22050 (- 16) False 2 4096 NotInitialized Mixer_new) = Inr None
   \<and> \<not> initialized (snd (Mixer_init 22050 (- 16) False 2 4096 NotInitialized Mixer_new))
   \<and> Mixer_get_init (snd (Mixer_init 22050 (- 16) False 2 4096 NotInitialized Mixer_new)) = None
   \<and> initialized (snd (Mixer_init 22050 (- 16) False 2 4096 (Opened 4096) Mixer_new))
   \<and> Mixer_get_init (snd (Mixer_init 22050 (- 16) False 2 4096 (Opened 4096) Mixer_new))
        = Some (22050, - 16, 2)"
proof -
  have b: "\<forall>n. NotInitialized \<noteq> Opened n" by simp
  have n: "\<not> initialized Mixer_new \<and> - 1 < channel_max Mixer_new"
    by (simp add: Mixer_new_def)
  from Mixer_init_result [where b = NotInitialized and s = Mixer_new and f = 22050
      and z = "- 16" and zf = False and ch = 2 and bf = 4096 and n = 4096] b n
  show ?thesis by simp
qed

text \<open>
  C7 as stated fails twice. A successful \<open>init\<close> returns \<open>None\<close>, not the format
  (which \<open>get_init\<close> gives). And after an \<open>init\<close> that failed for want of the backend
  class, \<open>Sound.play\<close> on the uninitialized mixer returns a channel and moves id
  \<open>0\<close> into the active pool.
\<close>

theorem Mixer_init_success_returns_None:
  "fst (Mixer_init 22050 (- 16) False 2 4096 (Opened 4096) Mixer_new) = Inr None
   \<and> Mixer_get_init (snd (Mixer_init 22050 (- 16) False 2 4096 (Opened 4096) Mixer_new))
        = Some (22050, - 16, 2)
   \<and> \<not> initialized (snd (Mixer_init 22050 (- 16) False 2 4096 NoMixerClass Mixer_new))
   \<and> fst (Sound_play example_sound 0
            (snd (Mixer_init 22050 (- 16) False 2 4096 NoMixerClass Mixer_new)))
        = Inr (Some (Channel_play' (fresh_channel 0) example_sound 0))
   \<and> channel_active (snd (Sound_play example_sound 0
            (snd (Mixer_init 22050 (- 16) False 2 4096 NoMixerClass Mixer_new)))) = [0]"
proof -
  have b: "\<forall>n. NoMixerClass \<noteq> Opened n" by simp
  have n: "\<not> initialized Mixer_new" "- 1 < channel_max Mixer_new"
    by (simp_all add: Mixer_new_def)
  show ?thesis
    using Mixer_init_success [OF n, of 22050 "- 16" False 2 4096 4096]
      Mixer_init_failure(2) [OF b, of 22050 "- 16" False 2 4096 Mixer_new]
      Sound_play_after_failed_init(1,2) [OF b, of example_sound 0 22050 "- 16" False 2 4096] n(1)
    by simp
qed

section \<open>States the mixer can reach\<close>

lemma activate_channel_sel [simp]:
  "channels (activate_channel i s) = channels s"
  "channel_max (activate_channel i s) = channel_max s"
  "channel_reserved_num (activate_channel i s) = channel_reserved_num s"
  "bufferSize (activate_channel i s) = bufferSize s"
  "channel_active (activate_channel i s) = channel_active s @ [i]"
  "channel_available (activate_channel i s) =
     (if i > channel_reserved_num s - 1 then remove1 i (channel_available s) else channel_available s)"
  "channel_reserved (activate_channel i s) =
     (if i > channel_reserved_num s - 1 then channel_reserved s else remove1 i (channel_reserved s))"
  by (simp_all add: activate_channel_def Let_def)

lemma deactivate_channel_sel [simp]:
  "channels (deactivate_channel i s) = channels s"
  "channel_max (deactivate_channel i s) = channel_max s"
  "channel_reserved_num (deactivate_channel i s) = channel_reserved_num s"
  "bufferSize (deactivate_channel i s) = bufferSize s"
  "channel_active (deactivate_channel i s) = remove1 i (channel_active s)"
  "channel_available (deactivate_channel i s) = channel_available s"
  "channel_reserved (deactivate_channel i s) = channel_reserved s"
  by (simp_all add: deactivate_channel_def Let_def)

lemma restore_channel_sel [simp]:
  "channels (restore_channel i s) = channels s"
  "channel_max (restore_channel i s) = channel_max s"
  "channel_reserved_num (restore_channel i s) = channel_reserved_num s"
  "bufferSize (restore_channel i s) = bufferSize s"
  "channel_active (restore_channel i s) = channel_active s"
  "channel_available (restore_channel i s) =
     (if i > channel_reserved_num s - 1 then channel_available s @ [i] else channel_available s)"
  "channel_reserved (restore_channel i s) =
     (if i > channel_reserved_num s - 1 then channel_reserved s
      else if i > - 1 then channel_reserved s @ [i] else channel_reserved s)"
  by (simp_all add: restore_channel_def)

lemma store_sel [simp]:
  "channels (store c s) = (channels s)(c_id c \<mapsto> c)"
  "channel_max (store c s) = channel_max s"
  "channel_reserved_num (store c s) = channel_reserved_num s"
  "bufferSize (store c s) = bufferSize s"
  "channel_active (store c s) = channel_active s"
  "channel_available (store c s) = channel_available s"
  "channel_reserved (store c s) = channel_reserved s"
  by (simp_all add: store_def)

lemma Channel_stop_sel [simp]:
  "channels (snd (Channel_stop c s)) = channels s"
  "channel_max (snd (Channel_stop c s)) = channel_max s"
  "channel_reserved_num (snd (Channel_stop c s)) = channel_reserved_num s"
  "bufferSize (snd (Channel_stop c s)) = bufferSize s"
  "c_id (fst (Channel_stop c s)) = c_id c"
  by (simp_all add: Channel_stop_def Let_def)

lemma Channel_stop_pools:
  "channel_active (snd (Channel_stop c s)) =
     (if c_active c then remove1 (c_id c) (channel_active s) else channel_active s)"
  "channel_available (snd (Channel_stop c s)) =
     (if c_active c \<and> c_id c > channel_reserved_num s - 1
      then channel_available s @ [c_id c] else channel_available s)"
  "channel_reserved (snd (Channel_stop c s)) =
     (if c_active c \<and> \<not> c_id c > channel_reserved_num s - 1 \<and> c_id c > - 1
      then channel_reserved s @ [c_id c] else channel_reserved s)"
  by (simp_all add: Channel_stop_def Let_def)

lemma Channel_stop_channel:
  "fst (Channel_stop c s) =
     (if c_active c
      then c\<lparr>c_active := False, c_stream := None, c_sound := None, c_pause := False,
             c_loops := 0, c_volume := 1, c_lvolume := 1, c_rvolume := 1\<rparr>
      else c)"
  by (simp add: Channel_stop_def Let_def)

lemma Channel_set_volume_sel [simp]:
  "c_id (Channel_set_volume c v v2) = c_id c"
  "c_active (Channel_set_volume c v v2) = c_active c"
  "c_pause (Channel_set_volume c v v2) = c_pause c"
  "c_sound (Channel_set_volume c v v2) = c_sound c"
  "c_stream (Channel_set_volume c v v2) = c_stream c"
  "c_loops (Channel_set_volume c v v2) = c_loops c"
  by (simp_all add: Channel_set_volume_def Let_def)

lemma Channel_play_sel [simp]:
  "channels (snd (Channel_play c sd loops s)) = channels s"
  "channel_max (snd (Channel_play c sd loops s)) = channel_max s"
  "channel_reserved_num (snd (Channel_play c sd loops s)) = channel_reserved_num s"
  "bufferSize (snd (Channel_play c sd loops s)) = bufferSize s"
  "c_id (fst (Channel_play c sd loops s)) = c_id c"
  "c_active (fst (Channel_play c sd loops s))"
  "c_sound (fst (Channel_play c sd loops s)) = Some sd"
  by (simp_all add: Channel_play_def Let_def split_def Channel_set_sound_def)

lemma Channel_play_pause:
  "c_pause (fst (Channel_play c sd loops s)) =
     (if c_sound c \<noteq> None \<and> c_active c then False else c_pause c)"
  by (simp add: Channel_play_def Let_def split_def Channel_set_sound_def Channel_stop_channel)

lemma Channel_play_mixer:
  "snd (Channel_play c sd loops s) =
     activate_channel (c_id c) (if c_sound c \<noteq> None then snd (Channel_stop c s) else s)"
  by (simp add: Channel_play_def Let_def split_def Channel_set_sound_def)

lemma Channel_get_sel [simp]:
  "channels (snd (snd (Channel_get c s))) = channels s"
  "channel_max (snd (snd (Channel_get c s))) = channel_max s"
  "channel_reserved_num (snd (snd (Channel_get c s))) = channel_reserved_num s"
  "bufferSize (snd (snd (Channel_get c s))) = bufferSize s"
  "c_id (fst (snd (Channel_get c s))) = c_id c"
  by (simp_all add: Channel_get_def Let_def split_def Channel_set_sound_def
      split: option.splits)

lemma Channel_get_cases:
  "(snd (snd (Channel_get c s)) = s
      \<and> c_active (fst (snd (Channel_get c s))) = c_active c
      \<and> c_pause (fst (snd (Channel_get c s))) = c_pause c
      \<and> c_sound (fst (snd (Channel_get c s))) = c_sound c)
   \<or> (\<exists>c1. c_id c1 = c_id c \<and> c_active c1 = c_active c \<and> c_pause c1 = c_pause c
          \<and> c_sound c1 = c_sound c \<and> snd (Channel_get c s) = Channel_stop c1 s)"
proof (cases "c_stream c")
  case None
  then show ?thesis by (simp add: Channel_get_def)
next
  case (Some st)
  let ?c1 = "c\<lparr>c_data_len := fst (stream_read st), c_stream := Some (snd (stream_read st))\<rparr>"
  show ?thesis
  proof (cases "fst (stream_read st) \<le> 0 \<and> c_loops c = 0")
    case True
    then have "snd (Channel_get c s) = Channel_stop ?c1 s"
      using Some by (simp add: Channel_get_def split_def Let_def)
    then show ?thesis by (intro disjI2 exI [of _ ?c1]) simp
  next
    case False
    then show ?thesis
      using Some
      by (auto simp: Channel_get_def split_def Let_def Channel_set_sound_def
          split: option.splits)
  qed
qed

lemma get_channel_Inr:
  assumes "get_channel i s = (Inr c, s')"
  shows "(channels s i = Some c \<and> s' = s)
         \<or> (channels s i = None \<and> c = fresh_channel i \<and> i < channel_max s
              \<and> bufferSize s \<noteq> None \<and> s' = store (fresh_channel i) s)"
  using assms
  by (auto simp: get_channel_def Channel_new_def register_channel_def store_def
      split: option.splits if_splits)

lemma get_channel_Inl: "get_channel i s = (Inl e, s') \<Longrightarrow> s' = s"
  by (auto simp: get_channel_def Channel_new_def register_channel_def
      split: option.splits if_splits)

lemma get_channel_Inl_iff:
  "(\<exists>e s'. get_channel i s = (Inl e, s')) \<longleftrightarrow>
     channels s i = None \<and> (bufferSize s = None \<or> \<not> i < channel_max s)"
  by (auto simp: get_channel_def Channel_new_def register_channel_def
      split: option.splits if_splits)

lemma reach_inv_frame:
  assumes "reach_inv s" "channels s' = channels s" "channel_max s' = channel_max s"
    "channel_reserved_num s' = channel_reserved_num s"
    "channel_reserved_num s = 0 \<longrightarrow> channel_reserved s' = []"
  shows "reach_inv s'"
  using assms by (simp add: reach_inv_def)

lemma reach_inv_store:
  "reach_inv s \<Longrightarrow> c_id c < channel_max s \<Longrightarrow> reach_inv (store c s)"
  by (simp add: reach_inv_def)

lemma reach_inv_get_channel:
  "reach_inv s \<Longrightarrow> reach_inv (snd (get_channel i s))"
proof -
  assume r: "reach_inv s"
  obtain x s' where g: "get_channel i s = (x, s')" by (cases "get_channel i s")
  show ?thesis
  proof (cases x)
    case (Inl e)
    with g r get_channel_Inl show ?thesis by fastforce
  next
    case (Inr c)
    with g r get_channel_Inr [of i s c s'] show ?thesis
      by (auto intro: reach_inv_store)
  qed
qed

lemma get_channel_id:
  "reach_inv s \<Longrightarrow> get_channel i s = (Inr c, s') \<Longrightarrow> c_id c = i \<and> i < channel_max s"
  by (auto dest!: get_channel_Inr simp: reach_inv_def)

lemma get_channel_sel [simp]:
  "channel_max (snd (get_channel i s)) = channel_max s"
  "channel_reserved_num (snd (get_channel i s)) = channel_reserved_num s"
  "channel_reserved (snd (get_channel i s)) = channel_reserved s"
  "channel_available (snd (get_channel i s)) = channel_available s"
  "channel_active (snd (get_channel i s)) = channel_active s"
  "bufferSize (snd (get_channel i s)) = bufferSize s"
  by (auto simp: get_channel_def Channel_new_def register_channel_def
      split: option.splits if_splits)

lemma reach_inv_Channel_stop:
  assumes "reach_inv s" shows "reach_inv (snd (Channel_stop c s))"
  using assms by (intro reach_inv_frame [OF assms]) (auto simp: Channel_stop_pools reach_inv_def)

lemma reach_inv_activate:
  assumes "reach_inv s" shows "reach_inv (activate_channel i s)"
  using assms by (intro reach_inv_frame [OF assms]) (auto simp: reach_inv_def)

lemma reach_inv_Channel_play: "reach_inv s \<Longrightarrow> reach_inv (snd (Channel_play c sd loops s))"
  by (simp add: Channel_play_mixer reach_inv_activate reach_inv_Channel_stop)

lemma reach_inv_Channel_get: "reach_inv s \<Longrightarrow> reach_inv (snd (snd (Channel_get c s)))"
  using Channel_get_cases [of c s] by (auto simp: reach_inv_Channel_stop)

lemma reach_inv_on_channel:
  assumes "reach_inv s" "\<And>c m. reach_inv m \<Longrightarrow> reach_inv (snd (f c m))"
    "\<And>c m. c_id (fst (f c m)) = c_id c" "\<And>c m. channel_max (snd (f c m)) = channel_max m"
  shows "reach_inv (snd (on_channel i f s))"
proof -
  obtain x s' where g: "get_channel i s = (x, s')" by (cases "get_channel i s")
  have r': "reach_inv s'" using reach_inv_get_channel [OF assms(1), of i] g by simp
  show ?thesis
  proof (cases x)
    case (Inl e)
    with g r' show ?thesis by (simp add: on_channel_def)
  next
    case (Inr c)
    have "c_id c < channel_max s'"
      using get_channel_id [OF assms(1) g [unfolded Inr]] g by (metis get_channel_sel(1) snd_conv)
    then show ?thesis
      using g Inr r' assms(2-4)
      by (simp add: on_channel_def split_def Let_def reach_inv_store)
  qed
qed

lemma fold_reserve_step:
  "fold reserve_step ids s =
     s\<lparr>channel_reserved := channel_reserved s @ ids,
       channel_available := fold remove1 ids (channel_available s)\<rparr>"
  by (induction ids arbitrary: s) (simp_all add: reserve_step_def)

lemma Mixer_set_reserved_eq:
  "Mixer_set_reserved count s =
     s\<lparr>channel_reserved_num := clamp_reserved count s,
       channel_reserved := [0..clamp_reserved count s - 1],
       channel_available := fold remove1 [0..clamp_reserved count s - 1] (channel_available s)\<rparr>"
  by (simp add: Mixer_set_reserved_def Let_def fold_reserve_step clamp_reserved_def)

lemma reach_inv_set_reserved: "reach_inv s \<Longrightarrow> reach_inv (Mixer_set_reserved count s)"
  by (auto simp: Mixer_set_reserved_eq reach_inv_def clamp_reserved_def)

lemma shrink_step_sel [simp]:
  "channels (shrink_step j s) = (channels s)(j := None)"
  "channel_max (shrink_step j s) = channel_max s"
  "channel_reserved_num (shrink_step j s) = channel_reserved_num s"
  "bufferSize (shrink_step j s) = bufferSize s"
  by (auto simp: shrink_step_def Let_def split_def fun_eq_iff split: option.splits)

lemma shrink_step_pools:
  "channel_active (shrink_step j s) =
     (case channels s j of None \<Rightarrow> channel_active s
      | Some c \<Rightarrow> channel_active (snd (Channel_stop c s)))"
  "channel_reserved (shrink_step j s) =
     (case channels s j of None \<Rightarrow> channel_reserved s
      | Some c \<Rightarrow> channel_reserved (snd (Channel_stop c s)))"
  "channel_available (shrink_step j s) =
     remove1 j (case channels s j of None \<Rightarrow> channel_available s
      | Some c \<Rightarrow> channel_available (snd (Channel_stop c s)))"
  by (simp_all add: shrink_step_def Let_def split_def split: option.splits)

lemma fold_shrink_step_sel [simp]:
  "channels (fold shrink_step ids s) = (\<lambda>i. if i \<in> set ids then None else channels s i)"
  "channel_max (fold shrink_step ids s) = channel_max s"
  "channel_reserved_num (fold shrink_step ids s) = channel_reserved_num s"
  "bufferSize (fold shrink_step ids s) = bufferSize s"
  by (induction ids arbitrary: s) (auto simp: fun_eq_iff)

lemma shrink_step_reserved_empty:
  "channel_reserved_num s = 0 \<Longrightarrow> channel_reserved s = [] \<Longrightarrow>
     channel_reserved (shrink_step j s) = []"
  by (auto simp: shrink_step_pools Channel_stop_pools split: option.splits)

lemma fold_shrink_step_reserved_empty:
  "channel_reserved_num s = 0 \<Longrightarrow> channel_reserved s = [] \<Longrightarrow>
     channel_reserved (fold shrink_step ids s) = []"
  by (induction ids arbitrary: s) (simp_all add: shrink_step_reserved_empty)

lemma reach_inv_set_num_channels:
  assumes "reach_inv s" shows "reach_inv (Mixer_set_num_channels count s)"
proof (cases "count \<ge> channel_max s")
  case True
  with assms show ?thesis
    by (fastforce simp: Mixer_set_num_channels_def reach_inv_def)
next
  case False
  show ?thesis
  proof (cases "count \<ge> 0")
    case True
    with False assms fold_shrink_step_reserved_empty [of s "[count..channel_max s - 1]"]
    show ?thesis
      by (auto simp: Mixer_set_num_channels_def reach_inv_def split: if_splits)
  next
    case False
    with assms \<open>\<not> count \<ge> channel_max s\<close> show ?thesis
      by (simp add: Mixer_set_num_channels_def)
  qed
qed

lemma reach_inv_init: "reach_inv s \<Longrightarrow> reach_inv (snd (Mixer_init f z zf ch bf b s))"
  by (cases b)
    (auto simp: Mixer_init_def Let_def Channel_new_def register_channel_def reach_inv_def
      split: if_splits)

lemma reach_inv_quit: "reach_inv s \<Longrightarrow> reach_inv (Mixer_quit s)"
  by (simp add: Mixer_quit_def reach_inv_def)

lemma some_channel_snd [simp]: "snd (some_channel r) = snd r"
  by (cases r) (auto simp: some_channel_def split: sum.splits)

lemma reach_inv_available_update:
  "reach_inv s \<Longrightarrow> reach_inv (s\<lparr>channel_available := xs\<rparr>)"
  by (simp add: reach_inv_def)

lemma reach_inv_active_update:
  "reach_inv s \<Longrightarrow> reach_inv (s\<lparr>channel_active := xs, active_flag := fl\<rparr>)"
  by (simp add: reach_inv_def)

lemma reach_inv_reserved_rotate:
  "reach_inv s \<Longrightarrow> channel_reserved_num s \<noteq> 0 \<Longrightarrow> reach_inv (s\<lparr>channel_reserved := xs\<rparr>)"
  by (simp add: reach_inv_def)

lemma reach_inv_find_channel: "reach_inv s \<Longrightarrow> reach_inv (snd (Mixer_find_channel force s))"
  by (auto simp: Mixer_find_channel_def Let_def split_def
      intro!: reach_inv_get_channel reach_inv_available_update reach_inv_reserved_rotate
      split: list.splits if_splits)

lemma reach_inv_retrieve_channel: "reach_inv s \<Longrightarrow> reach_inv (snd (retrieve_channel s))"
proof -
  assume r: "reach_inv s"
  show ?thesis
  proof (cases "channel_available s")
    case Nil
    with r show ?thesis by (simp add: retrieve_channel_def)
  next
    case (Cons i rest)
    have "reach_inv (snd (get_channel i (s\<lparr>channel_available := rest\<rparr>)))"
      using r by (intro reach_inv_get_channel reach_inv_available_update)
    then show ?thesis
      using Cons
      by (cases "get_channel i (s\<lparr>channel_available := rest\<rparr>)")
        (auto simp: retrieve_channel_def reach_inv_active_update split: sum.splits)
  qed
qed

lemma retrieve_channel_Some:
  assumes "retrieve_channel s = (Inr (Some c), s1)"
  shows "\<exists>i rest s0. channel_available s = i # rest
           \<and> get_channel i (s\<lparr>channel_available := rest\<rparr>) = (Inr c, s0)
           \<and> s1 = s0\<lparr>channel_active := channel_active s0 @ [i], active_flag := True\<rparr>"
  using assms
  by (auto simp: retrieve_channel_def split: list.splits sum.splits prod.splits)

lemma Channel_play'_sel [simp]:
  "c_id (Channel_play' c sd loops) = c_id c"
  "c_active (Channel_play' c sd loops)"
  "c_pause (Channel_play' c sd loops) = c_pause c"
  "c_sound (Channel_play' c sd loops) = Some sd"
  by (simp_all add: Channel_play'_def Channel_set_sound_def)

lemma reach_inv_Sound_play:
  assumes "reach_inv s" shows "reach_inv (snd (Sound_play sd loops s))"
proof -
  obtain x s1 where g: "retrieve_channel s = (x, s1)" by (cases "retrieve_channel s")
  have r1: "reach_inv s1" using reach_inv_retrieve_channel [OF assms] g by simp
  show ?thesis
  proof (cases x)
    case (Inl e)
    with g r1 show ?thesis by (simp add: Sound_play_def)
  next
    case (Inr co)
    show ?thesis
    proof (cases co)
      case None
      with g r1 Inr show ?thesis by (simp add: Sound_play_def)
    next
      case (Some c)
      from retrieve_channel_Some [OF g [unfolded Inr Some]]
      obtain i rest s0 where av: "channel_available s = i # rest"
        and gc: "get_channel i (s\<lparr>channel_available := rest\<rparr>) = (Inr c, s0)"
        and s1: "s1 = s0\<lparr>channel_active := channel_active s0 @ [i], active_flag := True\<rparr>"
        by blast
      have "reach_inv (s\<lparr>channel_available := rest\<rparr>)"
        using assms by (rule reach_inv_available_update)
      from get_channel_id [OF this gc] have "c_id c < channel_max s" by simp
      moreover have "channel_max s1 = channel_max s"
        using s1 gc get_channel_sel(1) [of i "s\<lparr>channel_available := rest\<rparr>"] by simp
      ultimately show ?thesis
        using g Inr Some r1 by (simp add: Sound_play_def Let_def reach_inv_store)
    qed
  qed
qed

lemma reach_inv_Mixer_read:
  assumes "reach_inv s" shows "reach_inv (snd (Mixer_read i s))"
proof (cases "channels s i")
  case None
  with assms show ?thesis by (simp add: Mixer_read_def)
next
  case (Some c)
  with assms have id: "c_id c < channel_max s" by (auto simp: reach_inv_def)
  obtain r c' s' where g: "Channel_get c s = (r, c', s')" by (cases "Channel_get c s")
  have "reach_inv s'" "c_id c' = c_id c" "channel_max s' = channel_max s"
    using reach_inv_Channel_get [OF assms, of c] Channel_get_sel(2,5) [of c s] g by simp_all
  then have "reach_inv (store c' s')" using id by (simp add: reach_inv_store)
  then show ?thesis
    using Some g assms by (auto simp: Mixer_read_def split: sum.splits prod.splits)
qed

lemma reach_inv_exec: "reach_inv s \<Longrightarrow> reach_inv (exec c s)"
proof (cases c)
  case (ChannelPlay i sd loops)
  assume "reach_inv s"
  then show ?thesis
    unfolding ChannelPlay exec.simps
    by (rule reach_inv_on_channel) (simp_all add: reach_inv_Channel_play)
next
  case (ChannelStop i)
  assume "reach_inv s"
  then show ?thesis
    unfolding ChannelStop exec.simps
    by (rule reach_inv_on_channel) (simp_all add: reach_inv_Channel_stop)
next
  case (ChannelPause i)
  assume "reach_inv s"
  then show ?thesis
    unfolding ChannelPause exec.simps
    by (rule reach_inv_on_channel) (simp_all add: Channel_pause_def)
next
  case (ChannelUnpause i)
  assume "reach_inv s"
  then show ?thesis
    unfolding ChannelUnpause exec.simps
    by (rule reach_inv_on_channel) (simp_all add: Channel_unpause_def)
next
  case (ChannelSetVolume i v v2)
  assume "reach_inv s"
  then show ?thesis
    unfolding ChannelSetVolume exec.simps
    by (rule reach_inv_on_channel) simp_all
qed (simp_all add: reach_inv_init reach_inv_quit reach_inv_set_num_channels
      reach_inv_set_reserved reach_inv_find_channel reach_inv_Sound_play reach_inv_Mixer_read)

lemma reach_inv_new: "reach_inv Mixer_new"
  by (simp add: reach_inv_def Mixer_new_def)

lemma reachable_inv: "reachable s \<Longrightarrow> reach_inv s"
  by (induction rule: reachable.induct) (simp_all add: reach_inv_new reach_inv_exec)



lemma count_list_distinct:
  "distinct xs \<Longrightarrow> count_list xs i = (if i \<in> set xs then 1 else 0)"
  by (induction xs) auto

lemma count_list_upto:
  "count_list [a..b] i = (if a \<le> i \<and> i \<le> b then 1 else 0)"
  using count_list_distinct [of "[a..b]" i] by simp






section \<open>Finding a channel\<close>

lemma longest_scan_fst:
  "fst (longest_scan rn ids lr) = List.find (\<lambda>i. rn \<le> i) ids"
  by (induction ids arbitrary: lr) auto

lemma longest_scan_snd:
  "List.find (\<lambda>i. rn \<le> i) ids = None \<Longrightarrow>
     snd (longest_scan rn ids lr) =
       (case lr of Some x \<Rightarrow> Some x | None \<Rightarrow> List.find (\<lambda>i. 0 \<le> i \<and> i < rn) ids)"
  by (induction ids arbitrary: lr) (auto split: option.splits if_splits)

lemma longest_scan_choice:
  "(case longest_scan (channel_reserved_num s) (channel_active s) None of
      (longest, longest_reserved) \<Rightarrow>
        (case longest of Some i \<Rightarrow> i
         | None \<Rightarrow> (case longest_reserved of Some i \<Rightarrow> i | None \<Rightarrow> 0)))
   = reclaim_candidate s"
proof (cases "List.find (\<lambda>i. channel_reserved_num s \<le> i) (channel_active s)")
  case None
  then show ?thesis
    using longest_scan_fst [of "channel_reserved_num s" "channel_active s" None]
      longest_scan_snd [OF None, of None]
    by (simp add: split_def reclaim_candidate_def)
next
  case (Some i)
  then show ?thesis
    using longest_scan_fst [of "channel_reserved_num s" "channel_active s" None]
    by (simp add: split_def reclaim_candidate_def)
qed

lemma some_channel_fst: "fst (some_channel r) \<noteq> Inr None"
  by (cases r) (auto simp: some_channel_def split: sum.splits)

lemma some_channel_get_channel:
  "fst (some_channel (get_channel i s)) =
     (if channels s i \<noteq> None then Inr (channels s i)
      else if i < channel_max s \<and> bufferSize s \<noteq> None then Inr (Some (fresh_channel i))
      else Inl AttributeError)"
  by (auto simp: some_channel_def get_channel_def Channel_new_def register_channel_def
      split: option.splits)

lemma Mixer_find_channel_available:
  "channel_available s = i # rest \<Longrightarrow>
     Mixer_find_channel force s =
       some_channel (get_channel i (s\<lparr>channel_available := rest @ [i]\<rparr>))"
  by (simp add: Mixer_find_channel_def)

lemma Mixer_find_channel_reserved:
  "channel_available s = [] \<Longrightarrow> channel_reserved s = i # rest \<Longrightarrow>
   channel_reserved_num s \<noteq> 0 \<Longrightarrow>
     Mixer_find_channel force s =
       some_channel (get_channel i (s\<lparr>channel_reserved := rest @ [i]\<rparr>))"
  by (simp add: Mixer_find_channel_def)

lemma Mixer_find_channel_empty:
  "channel_available s = [] \<Longrightarrow> channel_reserved s = [] \<Longrightarrow>
     Mixer_find_channel force s =
       (if force then some_channel (get_channel (reclaim_candidate s) s) else (Inr None, s))"
proof (cases "channel_reserved_num s = 0")
  case True
  assume "channel_available s = []" "channel_reserved s = []"
  with True longest_scan_choice [of s] show ?thesis
    by (simp add: Mixer_find_channel_def Let_def split_def)
next
  case False
  assume "channel_available s = []" "channel_reserved s = []"
  with False longest_scan_choice [of s] show ?thesis
    by (simp add: Mixer_find_channel_def Let_def split_def)
qed

text \<open>
  The peek of \<open>find_channel(force=False)\<close>, in every state a mixer reaches: the result
  is \<open>None\<close> exactly when the available and the reserved pool are both empty.
  Otherwise the head of the available pool (of the reserved pool, when the available one
  is empty) is popped and pushed back at the tail: the pool is rotated by one, the ids in
  both pools are the same as before and the active pool is untouched. A channel that is
  returned is the one of the popped id.
\<close>

lemma Mixer_find_channel_peek:
  assumes "reachable s"
  shows "(fst (Mixer_find_channel False s) = Inr None
            \<longleftrightarrow> channel_available s = [] \<and> channel_reserved s = [])
     \<and> channel_available (snd (Mixer_find_channel False s)) = rotate1 (channel_available s)
     \<and> channel_reserved (snd (Mixer_find_channel False s)) =
          (if channel_available s = [] then rotate1 (channel_reserved s) else channel_reserved s)
     \<and> channel_active (snd (Mixer_find_channel False s)) = channel_active s
     \<and> set (channel_available (snd (Mixer_find_channel False s))) = set (channel_available s)
     \<and> set (channel_reserved (snd (Mixer_find_channel False s))) = set (channel_reserved s)
     \<and> (\<forall>c. fst (Mixer_find_channel False s) = Inr (Some c) \<longrightarrow>
           c_id c = hd (channel_available s @ channel_reserved s))"
proof -
  have inv: "reach_inv s" using assms by (rule reachable_inv)
  have *: "(fst (Mixer_find_channel False s) = Inr None
            \<longleftrightarrow> channel_available s = [] \<and> channel_reserved s = [])
     \<and> channel_available (snd (Mixer_find_channel False s)) = rotate1 (channel_available s)
     \<and> channel_reserved (snd (Mixer_find_channel False s)) =
          (if channel_available s = [] then rotate1 (channel_reserved s) else channel_reserved s)
     \<and> channel_active (snd (Mixer_find_channel False s)) = channel_active s
     \<and> (\<forall>c. fst (Mixer_find_channel False s) = Inr (Some c) \<longrightarrow>
           c_id c = hd (channel_available s @ channel_reserved s))"
  proof (cases "channel_available s")
    case (Cons i rest)
    let ?s1 = "s\<lparr>channel_available := rest @ [i]\<rparr>"
    have f: "Mixer_find_channel False s = some_channel (get_channel i ?s1)"
      using Cons by (rule Mixer_find_channel_available)
    have r1: "reach_inv ?s1" using inv by (rule reach_inv_available_update)
    have "c_id c = i" if "fst (some_channel (get_channel i ?s1)) = Inr (Some c)" for c
    proof -
      obtain x s2 where g: "get_channel i ?s1 = (x, s2)" by (cases "get_channel i ?s1")
      with that have "x = Inr c" by (auto simp: some_channel_def split: sum.splits)
      with g get_channel_id [OF r1] show ?thesis by simp
    qed
    then show ?thesis
      using Cons by (simp add: f some_channel_fst)
  next
    case Nil
    show ?thesis
    proof (cases "channel_reserved s")
      case Nil': Nil
      show ?thesis
        using Nil Nil' by (simp add: Mixer_find_channel_empty)
    next
      case (Cons i rest)
      with inv have rn: "channel_reserved_num s \<noteq> 0" by (auto simp: reach_inv_def)
      let ?s1 = "s\<lparr>channel_reserved := rest @ [i]\<rparr>"
      have f: "Mixer_find_channel False s = some_channel (get_channel i ?s1)"
        using Nil Cons rn by (rule Mixer_find_channel_reserved)
      have r1: "reach_inv ?s1" using inv rn by (rule reach_inv_reserved_rotate)
      have "c_id c = i" if "fst (some_channel (get_channel i ?s1)) = Inr (Some c)" for c
      proof -
        obtain x s2 where g: "get_channel i ?s1 = (x, s2)" by (cases "get_channel i ?s1")
        with that have "x = Inr c" by (auto simp: some_channel_def split: sum.splits)
        with g get_channel_id [OF r1] show ?thesis by simp
      qed
      then show ?thesis
        using Nil Cons by (simp add: f some_channel_fst)
    qed
  qed
  then have "set (channel_available (snd (Mixer_find_channel False s))) = set (channel_available s)"
    and "set (channel_reserved (snd (Mixer_find_channel False s))) = set (channel_reserved s)"
    by simp_all
  with * show ?thesis by simp
qed

lemma Mixer_find_channel_peek_new:
  "fst (Mixer_find_channel False Mixer_new) \<noteq> Inr None
   \<and> channel_available (snd (Mixer_find_channel False Mixer_new)) = [1, 2, 3, 4, 5, 6, 7, 0]
   \<and> set (channel_available (snd (Mixer_find_channel False Mixer_new)))
        = set (channel_available Mixer_new)"
  using Mixer_find_channel_peek [OF reachable_new]
  by (auto simp: Mixer_new_available)

section \<open>Forced search\<close>

lemma selected_id_available:
  "channel_available s = i # rest \<Longrightarrow> selected_id s = i"
  by (simp add: selected_id_def)

lemma selected_id_reserved:
  "channel_available s = [] \<Longrightarrow> channel_reserved s = i # rest \<Longrightarrow> selected_id s = i"
  by (simp add: selected_id_def)

lemma selected_id_empty:
  "channel_available s = [] \<Longrightarrow> channel_reserved s = [] \<Longrightarrow>
     selected_id s = reclaim_candidate s"
  by (simp add: selected_id_def)

text \<open>
  The forced search, in every state a mixer reaches: \<open>find_channel(force=True)\<close>
  never returns \<open>None\<close>. It settles on an id (the head of the available pool, else the
  head of the reserved pool, else the reclamation candidate of the active pool: the
  oldest-activated non-reserved id if there is one, else the oldest-activated reserved
  id, else \<open>0\<close>) and returns the channel registered under it; when none is registered
  it returns a new channel if the id is below the capacity and \<open>init\<close> has set a buffer
  size, and raises \<open>AttributeError\<close> otherwise.
\<close>

lemma Mixer_find_channel_force:
  assumes "reachable s"
  shows "fst (Mixer_find_channel True s) \<noteq> Inr None
     \<and> fst (Mixer_find_channel True s) =
          (if channels s (selected_id s) \<noteq> None then Inr (channels s (selected_id s))
           else if selected_id s < channel_max s \<and> bufferSize s \<noteq> None
           then Inr (Some (fresh_channel (selected_id s)))
           else Inl AttributeError)
     \<and> (channel_available s = [] \<and> channel_reserved s = [] \<longrightarrow>
           selected_id s = reclaim_candidate s)"
proof -
  have inv: "reach_inv s" using assms by (rule reachable_inv)
  have *: "fst (Mixer_find_channel True s) =
          (if channels s (selected_id s) \<noteq> None then Inr (channels s (selected_id s))
           else if selected_id s < channel_max s \<and> bufferSize s \<noteq> None
           then Inr (Some (fresh_channel (selected_id s)))
           else Inl AttributeError)"
  proof (cases "channel_available s")
    case (Cons i rest)
    show ?thesis
      by (auto simp: Mixer_find_channel_available [OF Cons] selected_id_available [OF Cons]
          some_channel_get_channel)
  next
    case Nil
    show ?thesis
    proof (cases "channel_reserved s")
      case Nil': Nil
      show ?thesis
        by (auto simp: Mixer_find_channel_empty [OF Nil Nil'] selected_id_empty [OF Nil Nil']
            some_channel_get_channel)
    next
      case (Cons i rest)
      with inv have rn: "channel_reserved_num s \<noteq> 0" by (auto simp: reach_inv_def)
      show ?thesis
        by (auto simp: Mixer_find_channel_reserved [OF Nil Cons rn]
            selected_id_reserved [OF Nil Cons] some_channel_get_channel)
    qed
  qed
  have "fst (Mixer_find_channel True s) \<noteq> Inr None"
    unfolding * by auto
  with * show ?thesis by (simp add: selected_id_empty)
qed

lemma Mixer_find_channel_force_after_init:
  "fst (Mixer_find_channel True (exec init_call Mixer_new)) = Inr (Some (fresh_channel 0))"
proof -
  have r: "reachable (exec init_call Mixer_new)"
    by (intro reachable_exec reachable_new)
  have a: "channel_available (exec init_call Mixer_new) = 0 # [1, 2, 3, 4, 5, 6, 7]"
    by code_simp
  have c: "channels (exec init_call Mixer_new) 0 = None"
    and m: "0 < channel_max (exec init_call Mixer_new)"
    and b: "bufferSize (exec init_call Mixer_new) \<noteq> None"
    by code_simp+
  from Mixer_find_channel_force [OF r] show ?thesis
    unfolding selected_id_available [OF a] using c m b by simp
qed

text \<open>
  C3. The selection rule of the claim is the code's, and the forced search never returns
  \<open>None\<close>; but with a capacity above zero it does not always return a channel. After
  the calls of \<open>stale_active_calls\<close> the capacity is \<open>1\<close>: channel \<open>7\<close> plays and is
  paused, \<open>set_num_channels(1)\<close> unregisters it (its \<open>stop()\<close> does nothing on a
  paused channel, so id \<open>7\<close> stays in the active pool), and \<open>Sound.play\<close> takes
  channel \<open>0\<close>. Both inactive pools are empty; the forced search settles on id \<open>7\<close>,
  the oldest of the active pool, and constructing a channel with that id raises
  \<open>AttributeError\<close> (\<open>Channel not available.\<close>): no channel is returned.
\<close>

theorem Mixer_find_channel_force_raises:
  "0 < channel_max (fold exec stale_active_calls Mixer_new)
   \<and> channel_available (fold exec stale_active_calls Mixer_new) = []
   \<and> channel_reserved (fold exec stale_active_calls Mixer_new) = []
   \<and> channel_active (fold exec stale_active_calls Mixer_new) = [7, 0]
   \<and> fst (Mixer_find_channel True (fold exec stale_active_calls Mixer_new)) = Inl AttributeError"
  by code_simp

section \<open>What find_channel returns\<close>

lemma Mixer_find_channel_result:
  assumes "reachable s"
  shows "Mixer_find_channel force s =
     (if channel_available s = [] \<and> channel_reserved s = [] \<and> \<not> force then (Inr None, s)
      else some_channel (get_channel (selected_id s) (peeked s)))"
proof -
  have inv: "reach_inv s" using assms by (rule reachable_inv)
  show ?thesis
  proof (cases "channel_available s")
    case (Cons i rest)
    then show ?thesis
      by (simp add: Mixer_find_channel_available [OF Cons] selected_id_available [OF Cons]
          peeked_def)
  next
    case Nil
    show ?thesis
    proof (cases "channel_reserved s")
      case Nil': Nil
      show ?thesis
        by (simp add: Mixer_find_channel_empty [OF Nil Nil'] selected_id_empty [OF Nil Nil']
            peeked_def Nil Nil')
    next
      case (Cons i rest)
      with inv have rn: "channel_reserved_num s \<noteq> 0" by (auto simp: reach_inv_def)
      show ?thesis
        by (simp add: Mixer_find_channel_reserved [OF Nil Cons rn]
            selected_id_reserved [OF Nil Cons] peeked_def Nil Cons)
    qed
  qed
qed

lemma peeked_sel [simp]:
  "channels (peeked s) = channels s"
  "channel_max (peeked s) = channel_max s"
  "bufferSize (peeked s) = bufferSize s"
  "channel_active (peeked s) = channel_active s"
  "channel_reserved_num (peeked s) = channel_reserved_num s"
  by (simp_all add: peeked_def)

text \<open>
  What \<open>find_channel\<close> returns and leaves behind, in every state a mixer reaches. With
  both inactive pools empty and no \<open>force\<close> it returns \<open>None\<close> and changes nothing.
  Otherwise it settles on an id, rotates the pool it took the id from, and returns the
  channel registered under the id; for an id without a channel it registers and returns
  a new one when the id is below the capacity and a buffer size is set, and raises
  \<open>AttributeError\<close> when not.
\<close>

lemma Mixer_find_channel_cases:
  assumes "reachable s" "channel_available s \<noteq> [] \<or> channel_reserved s \<noteq> [] \<or> force"
  shows "Mixer_find_channel force s =
     (case channels s (selected_id s) of
        Some c \<Rightarrow> (Inr (Some c), peeked s)
      | None \<Rightarrow>
          if selected_id s < channel_max s \<and> bufferSize s \<noteq> None
          then (Inr (Some (fresh_channel (selected_id s))),
                store (fresh_channel (selected_id s)) (peeked s))
          else (Inl AttributeError, peeked s))"
  using assms(2)
  by (auto simp: Mixer_find_channel_result [OF assms(1)] some_channel_def get_channel_def
      Channel_new_def register_channel_def store_def split: option.splits)

text \<open>With every channel playing the forced search returns the oldest-activated channel
  above the reserved range, here channel \<open>2\<close>, activated after the reserved \<open>1\<close> and
  \<open>0\<close>.\<close>

lemma Mixer_find_channel_force_oldest:
  "channel_available (fold exec all_busy_calls Mixer_new) = []
   \<and> channel_reserved (fold exec all_busy_calls Mixer_new) = []
   \<and> channel_active (fold exec all_busy_calls Mixer_new) = [1, 0, 2, 3, 4, 5, 6, 7]
   \<and> reclaim_candidate (fold exec all_busy_calls Mixer_new) = 2
   \<and> fst (Mixer_find_channel False (fold exec all_busy_calls Mixer_new)) = Inr None
   \<and> fst (Mixer_find_channel True (fold exec all_busy_calls Mixer_new))
        = Inr (channels (fold exec all_busy_calls Mixer_new) 2)
   \<and> map_option c_id (channels (fold exec all_busy_calls Mixer_new) 2) = Some 2"
  by code_simp

text \<open>
  C4. The claim holds where the code returns: \<open>find_channel(force=False)\<close> gives
  \<open>None\<close> exactly when both inactive pools are empty, and otherwise only rotates the
  pool it peeks into. But with a pool that is not empty it does not always return a
  channel. After the calls of \<open>reserved_beyond_capacity_calls\<close> the capacity is \<open>4\<close>,
  the available pool is empty and the reserved pool starts with id \<open>4\<close>, which
  \<open>set_num_channels(4)\<close> left there; \<open>find_channel()\<close> pops it, pushes it back and
  raises \<open>AttributeError\<close> (\<open>Channel not available.\<close>) when it constructs the channel:
  it returns neither \<open>None\<close> nor a channel.
\<close>

theorem Mixer_find_channel_raises_on_stale_reserved:
  "channel_max (fold exec reserved_beyond_capacity_calls Mixer_new) = 4
   \<and> channel_available (fold exec reserved_beyond_capacity_calls Mixer_new) = []
   \<and> channel_reserved (fold exec reserved_beyond_capacity_calls Mixer_new)
        = [4, 5, 6, 7, 0, 1, 2, 3]
   \<and> fst (Mixer_find_channel False (fold exec reserved_beyond_capacity_calls Mixer_new))
        = Inl AttributeError
   \<and> channel_reserved
        (snd (Mixer_find_channel False (fold exec reserved_beyond_capacity_calls Mixer_new)))
        = [5, 6, 7, 0, 1, 2, 3, 4]"
  by code_simp

section \<open>Changing the capacity\<close>







section \<open>The partition of the channel ids\<close>

text \<open>A new mixer has every id of \<open>[0, 8)\<close> in exactly one pool, the available one.\<close>

lemma pool_count_new:
  "pool_count Mixer_new i = (if 0 \<le> i \<and> i < channel_max Mixer_new then 1 else 0)"
proof -
  have "channel_max Mixer_new = 8" "channel_reserved Mixer_new = []" "channel_active Mixer_new = []"
    by (simp_all add: Mixer_new_def)
  moreover have "count_list (channel_available Mixer_new) i = (if 0 \<le> i \<and> i \<le> 7 then 1 else 0)"
    using count_list_upto [of 0 7 i] by (simp add: Mixer_new_def)
  ultimately show ?thesis by (simp add: pool_count_def)
qed

text \<open>
  C1. The code keeps the partition on its ordinary paths and loses it on others. When a
  channel that plays is given a new sound, \<open>Channel.play\<close> stops it first, so its id
  is in the active pool once afterwards. When the channel is paused, that \<open>stop()\<close>
  returns at once (the active flag is off) and \<open>_activate_channel\<close> appends the id to
  the active pool a second time: id \<open>0\<close> is duplicated. And \<open>set_reserved(2)\<close>
  followed by \<open>set_reserved(0)\<close> on a new mixer clears the reserved pool without giving
  ids \<open>0\<close> and \<open>1\<close> back to the available pool: they are in no pool, with the
  capacity still \<open>8\<close>.
\<close>

theorem pools_duplicate_and_lose_ids:
  "channel_max (fold exec replay_playing_calls Mixer_new) = 8
   \<and> channel_active (fold exec replay_playing_calls Mixer_new) = [0]
   \<and> pool_count (fold exec replay_playing_calls Mixer_new) 0 = 1
   \<and> channel_max (fold exec replay_paused_calls Mixer_new) = 8
   \<and> channel_available (fold exec replay_paused_calls Mixer_new) = [1, 2, 3, 4, 5, 6, 7]
   \<and> channel_reserved (fold exec replay_paused_calls Mixer_new) = []
   \<and> channel_active (fold exec replay_paused_calls Mixer_new) = [0, 0]
   \<and> pool_count (fold exec replay_paused_calls Mixer_new) 0 = 2
   \<and> channel_max (fold exec unreserve_calls Mixer_new) = 8
   \<and> channel_available (fold exec unreserve_calls Mixer_new) = [2, 3, 4, 5, 6, 7]
   \<and> channel_reserved (fold exec unreserve_calls Mixer_new) = []
   \<and> channel_active (fold exec unreserve_calls Mixer_new) = []
   \<and> pool_count (fold exec unreserve_calls Mixer_new) 0 = 0
   \<and> pool_count (fold exec unreserve_calls Mixer_new) 1 = 0"
  by code_simp

end
